theory Spec2Isabelle
  imports Complex_Main "HOL-Library.Sublist" "HOL-Library.Code_Target_Numeral"
begin

section \<open>Exceptions and the outcome of a run\<close>

text \<open>
  The four scenario scripts under \<^verbatim>\<open>src/testsprite_tests\<close> share one shape: a coroutine
  \<^verbatim>\<open>run_test\<close> whose \<^verbatim>\<open>try\<close> block acquires the Playwright engine, a browser and a
  browsing context, navigates, waits, interacts and asserts, and whose \<^verbatim>\<open>finally\<close>
  block closes what was acquired. Every raise of the source is a value of \<open>exn\<close>; the
  string is the exception's message (\<^verbatim>\<open>str(e)\<close>).
\<close>

datatype exn =
    PlaywrightError string   \<comment> \<open>\<^verbatim>\<open>async_api.Error\<close> and its subclasses (\<^verbatim>\<open>TimeoutError\<close>, ...)\<close>
  | AssertionError string
  | NameError string
  | AttributeError string
  | ValueError string
  | OtherException string    \<comment> \<open>any class that does not derive from \<^verbatim>\<open>async_api.Error\<close>\<close>

fun is_playwright_error :: "exn \<Rightarrow> bool" where
  "is_playwright_error (PlaywrightError m) = True"
| "is_playwright_error e = False"

fun message :: "exn \<Rightarrow> string" where
  "message (PlaywrightError m) = m"
| "message (AssertionError m) = m"
| "message (NameError m) = m"
| "message (AttributeError m) = m"
| "message (ValueError m) = m"
| "message (OtherException m) = m"

text \<open>
  \<open>Returned\<close>: \<^verbatim>\<open>run_test\<close> returned. \<open>Raised e c\<close>: the exception \<open>e\<close> left
  \<^verbatim>\<open>run_test\<close>; \<open>c\<close> is its \<^verbatim>\<open>__context__\<close>, the exception that was in flight when
  \<open>e\<close> was raised inside the \<^verbatim>\<open>finally\<close> block.
\<close>

datatype outcome = Returned | Raised exn "exn option"

fun passed :: "outcome \<Rightarrow> bool" where
  "passed Returned = True"
| "passed (Raised e c) = False"

fun failure_reason :: "outcome \<Rightarrow> string option" where
  "failure_reason Returned = None"
| "failure_reason (Raised e c) = Some (message e)"

section \<open>Numeric extraction of a price text\<close>

text \<open>
  Line 75 of TC004: \<^verbatim>\<open>float(price_text.replace('$','').replace(',',''))\<close>.
  A text is the list of its code points (below 256). A float is a binary64 value: a
  rational that binary64 represents, a negative zero, an infinity, or a \<^verbatim>\<open>nan\<close>.
\<close>

datatype pyfloat = Finite rat | NegZero | PosInf | NegInf | NaN

text \<open>
  Rounding of a positive rational to binary64: to the nearest multiple of the unit in the
  last place of its binade (53 significant bits, exponents from -1022), ties to the even
  multiple; from \<open>2 ^ 1024\<close> on the result is an infinity.
\<close>

fun bit_length :: "nat \<Rightarrow> nat" where
  "bit_length n = (if n = 0 then 0 else Suc (bit_length (n div 2)))"

declare bit_length.simps [simp del]

definition round_half_even :: "rat \<Rightarrow> int" where
  "round_half_even x =
     (let f = \<lfloor>x\<rfloor>; d = x - of_int f
      in if d < 1 / 2 then f else if 1 / 2 < d then f + 1 else if even f then f else f + 1)"

definition pow2 :: "int \<Rightarrow> rat" where
  "pow2 e = (if 0 \<le> e then 2 ^ nat e else 1 / 2 ^ nat (- e))"

definition floor_log2 :: "rat \<Rightarrow> int" where
  \<comment> \<open>the \<open>e\<close> with \<open>2 ^ e \<le> a < 2 ^ (e + 1)\<close>, for \<open>a > 0\<close>\<close>
  "floor_log2 a =
     (let (p, q) = quotient_of a; e = int (bit_length (nat p)) - int (bit_length (nat q))
      in if pow2 e \<le> a then e else e - 1)"

definition round_binary64 :: "rat \<Rightarrow> rat" where
  "round_binary64 a =
     (let e = max (floor_log2 a) (- 1022) - 52
      in of_int (round_half_even (a / pow2 e)) * pow2 e)"

definition to_binary64 :: "bool \<Rightarrow> rat \<Rightarrow> pyfloat" where
  \<comment> \<open>the float of sign \<open>neg\<close> and magnitude nearest to \<open>a \<ge> 0\<close>\<close>
  "to_binary64 neg a =
     (let r = (if a = 0 then 0 else round_binary64 a)
      in if 2 ^ 1024 \<le> r then (if neg then NegInf else PosInf)
         else if r = 0 then (if neg then NegZero else Finite 0)
         else Finite (if neg then - r else r))"

definition is_digit :: "char \<Rightarrow> bool" where
  "is_digit c = (c \<in> set ''0123456789'')"

definition digit_val :: "char \<Rightarrow> nat" where
  "digit_val c = (of_char c :: nat) - 48"

definition digits_val :: "string \<Rightarrow> nat" where
  "digits_val ds = foldl (\<lambda>a c. 10 * a + digit_val c) 0 ds"

definition is_space :: "char \<Rightarrow> bool" where
  \<comment> \<open>\<^verbatim>\<open>Py_ISSPACE\<close>, after the Unicode spaces U+0085 and U+00A0 were turned into a blank\<close>
  "is_space c = (let n = (of_char c :: nat) in (9 \<le> n \<and> n \<le> 13) \<or> n = 32 \<or> n = 133 \<or> n = 160)"

definition strip :: "string \<Rightarrow> string" where
  "strip s = rev (dropWhile is_space (rev (dropWhile is_space s)))"

fun strip_underscores :: "char \<Rightarrow> string \<Rightarrow> string option" where
  \<comment> \<open>an underscore is allowed only between two digits; \<open>prev\<close> is the character before\<close>
  "strip_underscores prev [] = (if prev = CHR ''_'' then None else Some [])"
| "strip_underscores prev (c # cs) =
     (if c = CHR ''_'' then (if is_digit prev then strip_underscores c cs else None)
      else if prev = CHR ''_'' \<and> \<not> is_digit c then None
      else map_option ((#) c) (strip_underscores c cs))"

definition lower :: "char \<Rightarrow> char" where
  "lower c = (if c \<in> set ''ABCDEFGHIJKLMNOPQRSTUVWXYZ''
              then the (map_of (zip ''ABCDEFGHIJKLMNOPQRSTUVWXYZ'' ''abcdefghijklmnopqrstuvwxyz'') c)
              else c)"

definition split_sign :: "string \<Rightarrow> bool \<times> string" where
  "split_sign s = (case s of [] \<Rightarrow> (False, [])
     | c # r \<Rightarrow> if c = CHR ''-'' then (True, r) else if c = CHR ''+'' then (False, r) else (False, s))"

definition parse_exponent :: "string \<Rightarrow> int option" where
  \<comment> \<open>what follows the mantissa: nothing, or \<^verbatim>\<open>e\<close>/\<^verbatim>\<open>E\<close>, an optional sign and digits\<close>
  "parse_exponent s = (case s of [] \<Rightarrow> Some 0
     | c # r \<Rightarrow>
        if c = CHR ''e'' \<or> c = CHR ''E'' then
          (let (neg, ds) = split_sign r
           in if ds \<noteq> [] \<and> list_all is_digit ds
              then Some (if neg then - int (digits_val ds) else int (digits_val ds))
              else None)
        else None)"

definition parse_decimal :: "string \<Rightarrow> rat option" where
  \<comment> \<open>the magnitude a decimal literal denotes, before rounding\<close>
  "parse_decimal s =
     (let ip = takeWhile is_digit s; r1 = dropWhile is_digit s;
          (fp, r2) = (case r1 of [] \<Rightarrow> ([], [])
                      | c # r \<Rightarrow> if c = CHR ''.'' then (takeWhile is_digit r, dropWhile is_digit r)
                                 else ([], r1))
      in if ip = [] \<and> fp = [] then None
         else case parse_exponent r2 of None \<Rightarrow> None
              | Some ex \<Rightarrow>
                  Some (of_nat (digits_val (ip @ fp)) / 10 ^ length fp
                        * (if ex < 0 then 1 / 10 ^ nat (- ex) else 10 ^ nat ex)))"

definition parse_float_body :: "string \<Rightarrow> pyfloat option" where
  "parse_float_body s =
     (let (neg, r) = split_sign s; l = map lower r
      in if l = ''inf'' \<or> l = ''infinity'' then Some (if neg then NegInf else PosInf)
         else if l = ''nan'' then Some NaN
         else map_option (to_binary64 neg) (parse_decimal r))"

text \<open>
  \<^verbatim>\<open>repr\<close> of a string: in single quotes, or in double quotes when the text holds a
  single quote and no double quote; the quote and the backslash are escaped, tab, newline
  and return are written \<^verbatim>\<open>\t\<close>, \<^verbatim>\<open>\n\<close>, \<^verbatim>\<open>\r\<close>, and every other character that is
  not printable is written \<^verbatim>\<open>\xhh\<close>.
\<close>

definition hex_digit :: "nat \<Rightarrow> char" where
  "hex_digit n = ''0123456789abcdef'' ! n"

definition printable :: "char \<Rightarrow> bool" where
  \<comment> \<open>\<^verbatim>\<open>str.isprintable\<close> on a code point below 256\<close>
  "printable c = (let n = (of_char c :: nat) in (32 \<le> n \<and> n < 127) \<or> (161 \<le> n \<and> n \<noteq> 173))"

definition repr_char :: "char \<Rightarrow> char \<Rightarrow> string" where
  "repr_char quote c =
     (let n = (of_char c :: nat)
      in if c = quote \<or> c = CHR 0x5C then [CHR 0x5C, c]
         else if n = 9 then [CHR 0x5C, CHR ''t'']
         else if n = 10 then [CHR 0x5C, CHR ''n'']
         else if n = 13 then [CHR 0x5C, CHR ''r'']
         else if printable c then [c]
         else [CHR 0x5C, CHR ''x'', hex_digit (n div 16), hex_digit (n mod 16)])"

definition py_repr :: "string \<Rightarrow> string" where
  "py_repr s =
     (let quote = (if CHR 0x27 \<in> set s \<and> CHR 0x22 \<notin> set s then CHR 0x22 else CHR 0x27)
      in quote # concat (map (repr_char quote) s) @ [quote])"

definition float_error :: "string \<Rightarrow> exn" where
  \<comment> \<open>\<^verbatim>\<open>ValueError: could not convert string to float: \<close> and the \<^verbatim>\<open>repr\<close> of the text\<close>
  "float_error s = ValueError (''could not convert string to float: '' @ py_repr s)"

definition py_float :: "string \<Rightarrow> exn + pyfloat" where
  \<comment> \<open>the builtin \<^verbatim>\<open>float(s)\<close> on a string\<close>
  "py_float s =
     (case strip_underscores (CHR 0x00) s of None \<Rightarrow> Inl (float_error s)
      | Some t \<Rightarrow> (case parse_float_body (strip t) of None \<Rightarrow> Inl (float_error s)
                   | Some v \<Rightarrow> Inr v))"

definition replace_char :: "char \<Rightarrow> string \<Rightarrow> string" where
  \<comment> \<open>\<^verbatim>\<open>s.replace(c, '')\<close> for a single character \<open>c\<close>\<close>
  "replace_char c s = filter (\<lambda>x. x \<noteq> c) s"

definition residual :: "string \<Rightarrow> string" where
  "residual price_text = replace_char (CHR '','') (replace_char (CHR ''$'') price_text)"

definition extract_price :: "string \<Rightarrow> exn + pyfloat" where
  "extract_price price_text = py_float (residual price_text)"

section \<open>The assertions of TC004 over the villa cards\<close>

text \<open>
  What the element-level reads of TC004 return for one \<^verbatim>\<open>.villa-card\<close> element:
  whether \<^verbatim>\<open>query_selector\<close> finds a \<^verbatim>\<open>.multimedia\<close> and a \<^verbatim>\<open>.villa-title\<close> child,
  the \<^verbatim>\<open>inner_text\<close> of the \<^verbatim>\<open>.villa-price\<close> and \<^verbatim>\<open>.villa-location\<close> children (\<open>None\<close>
  when \<^verbatim>\<open>query_selector\<close> returns \<^verbatim>\<open>None\<close>), and the \<^verbatim>\<open>textContent\<close> of each
  \<^verbatim>\<open>.amenity\<close> child. These reads on an element handle are taken to return; the
  \<^verbatim>\<open>query_selector_all\<close> on the page that yields the cards may raise.
\<close>

record card =
  multimedia :: bool
  title :: bool
  price :: "string option"
  location :: "string option"
  amenities :: "string list"

text \<open>Lines 53-63: villas are listed with multimedia and key information.\<close>

fun villas_loop :: "card list \<Rightarrow> exn option" where
  "villas_loop [] = None"
| "villas_loop (villa # villas) =
     (if \<not> multimedia villa then Some (AssertionError ''Villa multimedia not found'')
      else if \<not> (title villa \<and> price villa \<noteq> None \<and> location villa \<noteq> None)
        then Some (AssertionError ''Key villa information missing'')
      else villas_loop villas)"

definition assert_villas_listed :: "card list \<Rightarrow> exn option" where
  "assert_villas_listed villas =
     (if \<not> length villas > 0 then Some (AssertionError ''No villas found on the listing page'')
      else villas_loop villas)"

text \<open>Lines 65-69: after the location filter.\<close>

definition none_has_no_inner_text :: exn where
  "none_has_no_inner_text =
     AttributeError (CHR 0x27 # ''NoneType'' @ CHR 0x27 # '' object has no attribute '' @
                     CHR 0x27 # ''inner_text'' @ [CHR 0x27])"

fun location_loop :: "card list \<Rightarrow> exn option" where
  "location_loop [] = None"
| "location_loop (villa # villas) =
     (case location villa of
        None \<Rightarrow> Some none_has_no_inner_text
      | Some loc_text \<Rightarrow>
          if \<not> sublist ''Expected Location'' loc_text
          then Some (AssertionError (''Villa location '' @ loc_text @ '' does not match filter''))
          else location_loop villas)"

definition assert_location_filter :: "card list \<Rightarrow> exn option" where
  "assert_location_filter filtered_villas =
     (if \<not> length filtered_villas > 0
      then Some (AssertionError ''No villas found after applying location filter'')
      else location_loop filtered_villas)"

text \<open>
  Lines 71-76: after the price range filter. \<open>float_str\<close> is Python's \<^verbatim>\<open>str\<close> of a
  float, which the f-string of line 76 applies to \<^verbatim>\<open>price_value\<close>; it is a parameter.
\<close>

fun price_in_range :: "pyfloat \<Rightarrow> bool" where
  \<comment> \<open>\<^verbatim>\<open>100 <= price_value <= 500\<close>; every comparison with \<^verbatim>\<open>nan\<close> is false\<close>
  "price_in_range (Finite q) = (100 \<le> q \<and> q \<le> 500)"
| "price_in_range NegZero = False"
| "price_in_range PosInf = False"
| "price_in_range NegInf = False"
| "price_in_range NaN = False"

fun price_loop :: "(pyfloat \<Rightarrow> string) \<Rightarrow> card list \<Rightarrow> exn option" where
  "price_loop float_str [] = None"
| "price_loop float_str (villa # villas) =
     (case price villa of
        None \<Rightarrow> Some none_has_no_inner_text
      | Some price_text \<Rightarrow>
          (case extract_price price_text of
             Inl e \<Rightarrow> Some e
           | Inr price_value \<Rightarrow>
               if \<not> price_in_range price_value
               then Some (AssertionError (''Villa price '' @ float_str price_value @ '' out of range''))
               else price_loop float_str villas))"

definition assert_price_filter :: "(pyfloat \<Rightarrow> string) \<Rightarrow> card list \<Rightarrow> exn option" where
  "assert_price_filter float_str filtered_villas =
     (if \<not> length filtered_villas > 0
      then Some (AssertionError ''No villas found after applying price filter'')
      else price_loop float_str filtered_villas)"

text \<open>Lines 78-83: after the amenities filter.\<close>

fun amenities_loop :: "card list \<Rightarrow> exn option" where
  "amenities_loop [] = None"
| "amenities_loop (villa # villas) =
     (if \<not> ''Pool'' \<in> set (amenities villa)
      then Some (AssertionError ''Villa missing required amenity: Pool'')
      else amenities_loop villas)"

definition assert_amenities_filter :: "card list \<Rightarrow> exn option" where
  "assert_amenities_filter filtered_villas =
     (if \<not> length filtered_villas > 0
      then Some (AssertionError ''No villas found after applying amenities filter'')
      else amenities_loop filtered_villas)"

section \<open>The statements of a scenario script\<close>

text \<open>
  One constructor per statement form of the four scripts. A script is the list of the
  statements of its \<^verbatim>\<open>try\<close> block, in program order; a statement's position in that
  list is its step number.
\<close>

datatype action =
    Start                                  \<comment> \<open>\<^verbatim>\<open>pw = await async_api.async_playwright().start()\<close>\<close>
  | Launch bool "string list"              \<comment> \<open>\<^verbatim>\<open>browser = await pw.chromium.launch(headless=.., args=..)\<close>\<close>
  | NewContext                             \<comment> \<open>\<^verbatim>\<open>context = await browser.new_context()\<close>\<close>
  | SetDefaultTimeout nat                  \<comment> \<open>\<^verbatim>\<open>context.set_default_timeout(5000)\<close>\<close>
  | NewPage                                \<comment> \<open>\<^verbatim>\<open>page = await context.new_page()\<close>\<close>
  | Goto string "string option" nat        \<comment> \<open>\<^verbatim>\<open>await page.goto(url, wait_until=.., timeout=..)\<close>\<close>
  | TryWaitForLoadState string nat
      \<comment> \<open>\<^verbatim>\<open>try: await page.wait_for_load_state(..) except async_api.Error: pass\<close>\<close>
  | ForFramesTryWaitForLoadState string nat
      \<comment> \<open>\<^verbatim>\<open>for frame in page.frames:\<close> the same \<^verbatim>\<open>try\<close> on \<^verbatim>\<open>frame\<close>\<close>
  | MouseWheelWindow bool
      \<comment> \<open>\<^verbatim>\<open>await page.mouse.wheel(0, window.innerHeight)\<close>; \<open>True\<close> for \<^verbatim>\<open>-window.innerHeight\<close>\<close>
  | Locate string
      \<comment> \<open>\<^verbatim>\<open>frame = context.pages[-1]\<close>; \<^verbatim>\<open>elem = frame.locator(selector).nth(0)\<close>\<close>
  | WaitForTimeout nat                     \<comment> \<open>\<^verbatim>\<open>await page.wait_for_timeout(3000)\<close>\<close>
  | Click nat                              \<comment> \<open>\<^verbatim>\<open>await elem.click(timeout=5000)\<close>\<close>
  | Fill string                            \<comment> \<open>\<^verbatim>\<open>await elem.fill(text)\<close>\<close>
  | AssertVillasListed                     \<comment> \<open>TC004, lines 53-63\<close>
  | AssertLocationFilter                   \<comment> \<open>TC004, lines 65-69\<close>
  | AssertPriceFilter                      \<comment> \<open>TC004, lines 71-76\<close>
  | AssertAmenitiesFilter                  \<comment> \<open>TC004, lines 78-83\<close>
  | AssertFalse string                     \<comment> \<open>\<^verbatim>\<open>assert False, message\<close>\<close>
  | Sleep nat                              \<comment> \<open>\<^verbatim>\<open>await asyncio.sleep(5)\<close>\<close>

text \<open>
  Everything outside the script: what the browser answers to the call made by the step at
  a position (\<open>None\<close>: the call returns; \<open>Some e\<close>: it raises \<open>e\<close>), the frames
  \<^verbatim>\<open>page.frames\<close> holds when the loop starts, each with the answer to its wait, the cards
  a \<^verbatim>\<open>query_selector_all('.villa-card')\<close> made at a position returns, the answers to the
  three calls of the \<^verbatim>\<open>finally\<close> block, and Python's \<^verbatim>\<open>str\<close> of a float.
\<close>

record env =
  call_result :: "nat \<Rightarrow> exn option"
  page_frames :: "exn option list"
  villa_cards :: "nat \<Rightarrow> card list"
  context_close :: "exn option"
  browser_close :: "exn option"
  pw_stop :: "exn option"
  float_str :: "pyfloat \<Rightarrow> string"

text \<open>The three variables the \<^verbatim>\<open>finally\<close> block tests: \<open>True\<close> once bound to an object.\<close>

record vars =
  pw :: bool
  browser :: bool
  browsing_context :: bool   \<comment> \<open>the variable \<^verbatim>\<open>context\<close>\<close>

definition init_vars :: vars where
  "init_vars = \<lparr>pw = False, browser = False, browsing_context = False\<rparr>"

datatype event =
    Step nat action     \<comment> \<open>the statement at this position was started\<close>
  | FrameWait nat       \<comment> \<open>the wait on the frame of this index was started\<close>
  | ContextClose        \<comment> \<open>\<^verbatim>\<open>await context.close()\<close> was called\<close>
  | BrowserClose        \<comment> \<open>\<^verbatim>\<open>await browser.close()\<close> was called\<close>
  | PwStop              \<comment> \<open>\<^verbatim>\<open>await pw.stop()\<close> was called\<close>

definition swallow :: "exn option \<Rightarrow> exn option" where
  \<comment> \<open>\<^verbatim>\<open>try: .. except async_api.Error: pass\<close>\<close>
  "swallow r = (case r of None \<Rightarrow> None
                | Some e \<Rightarrow> if is_playwright_error e then None else Some e)"

fun frames_loop :: "nat \<Rightarrow> exn option list \<Rightarrow> event list \<times> exn option" where
  "frames_loop k [] = ([], None)"
| "frames_loop k (w # ws) =
     (case swallow w of
        Some e \<Rightarrow> ([FrameWait k], Some e)
      | None \<Rightarrow> (let (t, r) = frames_loop (Suc k) ws in (FrameWait k # t, r)))"

definition window_undefined :: exn where
  \<comment> \<open>no script binds \<^verbatim>\<open>window\<close>, and it is no builtin\<close>
  "window_undefined = NameError ''name 'window' is not defined''"

fun exec_action :: "env \<Rightarrow> nat \<Rightarrow> action \<Rightarrow> event list \<times> exn option" where
  "exec_action E i (TryWaitForLoadState st ms) =
     ([Step i (TryWaitForLoadState st ms)], swallow (call_result E i))"
| "exec_action E i (ForFramesTryWaitForLoadState st ms) =
     (let (t, r) = frames_loop 0 (page_frames E)
      in (Step i (ForFramesTryWaitForLoadState st ms) # t, r))"
| "exec_action E i (MouseWheelWindow neg) =
     ([Step i (MouseWheelWindow neg)], Some window_undefined)"
| "exec_action E i (AssertFalse m) = ([Step i (AssertFalse m)], Some (AssertionError m))"
| "exec_action E i AssertVillasListed =
     ([Step i AssertVillasListed],
      case call_result E i of Some e \<Rightarrow> Some e
      | None \<Rightarrow> assert_villas_listed (villa_cards E i))"
| "exec_action E i AssertLocationFilter =
     ([Step i AssertLocationFilter],
      case call_result E i of Some e \<Rightarrow> Some e
      | None \<Rightarrow> assert_location_filter (villa_cards E i))"
| "exec_action E i AssertPriceFilter =
     ([Step i AssertPriceFilter],
      case call_result E i of Some e \<Rightarrow> Some e
      | None \<Rightarrow> assert_price_filter (float_str E) (villa_cards E i))"
| "exec_action E i AssertAmenitiesFilter =
     ([Step i AssertAmenitiesFilter],
      case call_result E i of Some e \<Rightarrow> Some e
      | None \<Rightarrow> assert_amenities_filter (villa_cards E i))"
| "exec_action E i a = ([Step i a], call_result E i)"

fun assign :: "action \<Rightarrow> vars \<Rightarrow> vars" where
  \<comment> \<open>the variable a completed statement binds\<close>
  "assign Start vs = vs\<lparr>pw := True\<rparr>"
| "assign (Launch h args) vs = vs\<lparr>browser := True\<rparr>"
| "assign NewContext vs = vs\<lparr>browsing_context := True\<rparr>"
| "assign a vs = vs"

fun exec_steps :: "env \<Rightarrow> nat \<Rightarrow> vars \<Rightarrow> action list \<Rightarrow> event list \<times> exn option \<times> vars" where
  "exec_steps E i vs [] = ([], None, vs)"
| "exec_steps E i vs (a # as) =
     (case exec_action E i a of
        (t, Some e) \<Rightarrow> (t, Some e, vs)
      | (t, None) \<Rightarrow>
          (let (t', r, vs') = exec_steps E (Suc i) (assign a vs) as in (t @ t', r, vs')))"

text \<open>
  The \<^verbatim>\<open>finally\<close> block of every script: \<^verbatim>\<open>if context: await context.close()\<close>,
  \<^verbatim>\<open>if browser: await browser.close()\<close>, \<^verbatim>\<open>if pw: await pw.stop()\<close>, with no handler
  around any of the three calls.
\<close>

definition finally_pw :: "env \<Rightarrow> vars \<Rightarrow> event list \<times> exn option" where
  "finally_pw E vs = (if pw vs then ([PwStop], pw_stop E) else ([], None))"

definition finally_browser :: "env \<Rightarrow> vars \<Rightarrow> event list \<times> exn option" where
  "finally_browser E vs =
     (if browser vs then
        (case browser_close E of
           Some e \<Rightarrow> ([BrowserClose], Some e)
         | None \<Rightarrow> (let (t, r) = finally_pw E vs in (BrowserClose # t, r)))
      else finally_pw E vs)"

definition finally_block :: "env \<Rightarrow> vars \<Rightarrow> event list \<times> exn option" where
  "finally_block E vs =
     (if browsing_context vs then
        (case context_close E of
           Some e \<Rightarrow> ([ContextClose], Some e)
         | None \<Rightarrow> (let (t, r) = finally_browser E vs in (ContextClose # t, r)))
      else finally_browser E vs)"

definition run_test :: "action list \<Rightarrow> env \<Rightarrow> event list \<times> outcome" where
  "run_test script E =
     (let (t, r, vs) = exec_steps E 0 init_vars script;
          (t', r') = finally_block E vs
      in (t @ t',
          case r' of
            Some e' \<Rightarrow> Raised e' r
          | None \<Rightarrow> (case r of Some e \<Rightarrow> Raised e None | None \<Rightarrow> Returned)))"

section \<open>The four scenario scripts\<close>

text \<open>Lines 11-45, the same in every script.\<close>

definition launch_args :: "string list" where
  "launch_args = [''--window-size=1280,720'', ''--disable-dev-shm-usage'', ''--ipc=host'',
                  ''--single-process'']"

definition session_prologue :: "action list" where
  "session_prologue =
     [Start, Launch True launch_args, NewContext, SetDefaultTimeout 5000, NewPage,
      Goto ''http://localhost:5175'' (Some ''commit'') 10000,
      TryWaitForLoadState ''domcontentloaded'' 3000,
      ForFramesTryWaitForLoadState ''domcontentloaded'' 3000]"

text \<open>The four-line interaction block the generated scripts repeat.\<close>

definition click :: "string \<Rightarrow> action list" where
  "click selector = [Locate selector, WaitForTimeout 3000, Click 5000]"

definition fill :: "string \<Rightarrow> string \<Rightarrow> action list" where
  "fill selector txt = [Locate selector, WaitForTimeout 3000, Fill txt]"

definition generic_failure :: string where
  "generic_failure = ''Test plan execution failed: generic failure assertion.''"

definition TC004_steps :: "action list" where
  "TC004_steps = session_prologue @
     [MouseWheelWindow False,
      AssertVillasListed, AssertLocationFilter, AssertPriceFilter, AssertAmenitiesFilter,
      Sleep 5]"

definition TC005_steps :: "action list" where
  "TC005_steps =
     session_prologue @
     [MouseWheelWindow False, MouseWheelWindow True, Goto ''http://localhost:5175/login'' None 10000] @
     click ''xpath=html/body/div/div/div/div/a'' @
     click ''xpath=html/body/div/div/div/div/div[2]/div/a[2]'' @
     fill ''xpath=html/body/div/div/div/div/div/form/div/input'' ''host@example.com'' @
     fill ''xpath=html/body/div/div/div/div/div/form/div[2]/input'' ''HostPassword123'' @
     click ''xpath=html/body/div/div/div/div/div/form/button'' @
     click ''xpath=html/body/div/div/div/div/div/div/a'' @
     fill ''xpath=html/body/div/div/div/div/form/div/input'' ''host@example.com'' @
     click ''xpath=html/body/div/div/div/div/form/button'' @
     click ''xpath=html/body/div/div/div/div/div/div[2]/a'' @
     fill ''xpath=html/body/div/div/div/div/div/form/div/input'' ''host@example.com'' @
     fill ''xpath=html/body/div/div/div/div/div/form/div[2]/input'' ''NewHostPassword123'' @
     click ''xpath=html/body/div/div/div/div/div/form/button'' @
     click ''xpath=html/body/div/div/div/div/div/div/div/a'' @
     fill ''xpath=html/body/div/div/div/div/form/div[2]/input'' ''Test Host'' @
     fill ''xpath=html/body/div/div/div/div/form/div[3]/input'' ''testhost@example.com'' @
     fill ''xpath=html/body/div/div/div/div/form/div[4]/div/input'' ''TestHostPass123'' @
     click ''xpath=html/body/div/div/div/div/form/div[5]/label/input'' @
     click ''xpath=html/body/div/div/div/div/form/button'' @
     fill ''xpath=html/body/div/div/div[2]/div/div/form/div/input'' ''testhost@example.com'' @
     fill ''xpath=html/body/div/div/div[2]/div/div/form/div[2]/input'' ''TestHostPass123'' @
     click ''xpath=html/body/div/div/div[2]/div/div/form/button'' @
     [AssertFalse generic_failure, Sleep 5]"

definition TC007_steps :: "action list" where
  "TC007_steps =
     session_prologue @
     click ''xpath=html/body/div/div/div/div/div[2]/div/a[2]'' @
     fill ''xpath=html/body/div/div/div/div/div/form/div/input'' ''guest@example.com'' @
     fill ''xpath=html/body/div/div/div/div/div/form/div[2]/input'' ''guestpassword'' @
     click ''xpath=html/body/div/div/div/div/div/form/button'' @
     click ''xpath=html/body/div/div/nav/div/div/a'' @
     click ''xpath=html/body/div/div/div/div[2]/section/div[2]/div/a'' @
     click ''xpath=html/body/div/div/nav/div/div/a'' @
     click ''xpath=html/body/div/div/div/div[2]/section/div[2]/div/a[2]'' @
     click ''xpath=html/body/div/div/nav/div/div/a'' @
     click ''xpath=html/body/div/div/div/div[2]/section/div[2]/div/a[3]'' @
     click ''xpath=html/body/div/div/nav/div/div/a'' @
     fill ''xpath=html/body/div/div/div/div/div[2]/form/input'' ''Malibu'' @
     fill ''xpath=html/body/div/div/div/div/div[2]/form/input[2]'' ''2025-08-01'' @
     fill ''xpath=html/body/div/div/div/div/div[2]/form/input[3]'' ''2025-08-05'' @
     fill ''xpath=html/body/div/div/div/div/div[2]/form/input[4]'' ''2'' @
     click ''xpath=html/body/div/div/div/div/div[2]/form/button'' @
     click ''xpath=html/body/div/div/div/div/div[3]/div/div[2]/div/div/div/a'' @
     click ''xpath=html/body/div/div/nav/div/div/a'' @
     [AssertFalse generic_failure, Sleep 5]"

definition TC012_steps :: "action list" where
  "TC012_steps =
     session_prologue @
     [MouseWheelWindow False, Goto ''http://localhost:5175/login'' None 10000, Goto ''http://localhost:5175/home'' None 10000] @
     click ''xpath=html/body/div/div/div/div/a'' @
     click ''xpath=html/body/div/div/div/div/div[2]/div/a[2]'' @
     fill ''xpath=html/body/div/div/div/div/div/form/div/input'' ''guest@example.com'' @
     fill ''xpath=html/body/div/div/div/div/div/form/div[2]/input'' ''guestpassword'' @
     click ''xpath=html/body/div/div/div/div/div/form/button'' @
     click ''xpath=html/body/div/div/div/div/div/div/div/a'' @
     fill ''xpath=html/body/div/div/div/div/form/div[2]/input'' ''Test Guest'' @
     fill ''xpath=html/body/div/div/div/div/form/div[3]/input'' ''testguest@example.com'' @
     fill ''xpath=html/body/div/div/div/div/form/div[4]/div/input'' ''guestpass123'' @
     click ''xpath=html/body/div/div/div/div/form/div[5]/label/input'' @
     click ''xpath=html/body/div/div/div/div/form/button'' @
     [AssertFalse generic_failure, Sleep 5]"

definition scenarios :: "action list list" where
  "scenarios = [TC004_steps, TC005_steps, TC007_steps, TC012_steps]"

section \<open>Observations of a run\<close>

fun is_teardown :: "event \<Rightarrow> bool" where
  "is_teardown ContextClose = True"
| "is_teardown BrowserClose = True"
| "is_teardown PwStop = True"
| "is_teardown ev = False"

definition teardown :: "event list \<Rightarrow> event list" where
  "teardown t = filter is_teardown t"

definition acquired_closes :: "vars \<Rightarrow> event list" where
  \<comment> \<open>the close calls the \<^verbatim>\<open>finally\<close> block owes to the variables that are bound\<close>
  "acquired_closes vs =
     (if browsing_context vs then [ContextClose] else []) @
     (if browser vs then [BrowserClose] else []) @
     (if pw vs then [PwStop] else [])"

definition body_trace :: "action list \<Rightarrow> env \<Rightarrow> event list" where
  "body_trace script E = fst (exec_steps E 0 init_vars script)"

definition body_result :: "action list \<Rightarrow> env \<Rightarrow> exn option" where
  "body_result script E = fst (snd (exec_steps E 0 init_vars script))"

definition final_vars :: "action list \<Rightarrow> env \<Rightarrow> vars" where
  "final_vars script E = snd (snd (exec_steps E 0 init_vars script))"

fun step_positions :: "event list \<Rightarrow> nat list" where
  "step_positions [] = []"
| "step_positions (Step i a # t) = i # step_positions t"
| "step_positions (ev # t) = step_positions t"

fun binds_nothing :: "action \<Rightarrow> bool" where
  "binds_nothing Start = False"
| "binds_nothing (Launch h args) = False"
| "binds_nothing NewContext = False"
| "binds_nothing a = True"

definition closes_succeed :: "env \<Rightarrow> bool" where
  "closes_succeed E = (context_close E = None \<and> browser_close E = None \<and> pw_stop E = None)"

text \<open>An environment in which every call returns, with two frames and no cards.\<close>

definition env_ok :: env where
  "env_ok = \<lparr>call_result = (\<lambda>i. None), page_frames = [None, None],
             villa_cards = (\<lambda>i. []), context_close = None, browser_close = None,
             pw_stop = None, float_str = (\<lambda>v. ''?'')\<rparr>"

definition prologue_vars :: "env \<Rightarrow> vars" where
  \<comment> \<open>the variables bound by lines 11-25, read off the answers to the first three calls\<close>
  "prologue_vars E =
     \<lparr>pw = (call_result E 0 = None),
      browser = (call_result E 0 = None \<and> call_result E 1 = None),
      browsing_context =
        (call_result E 0 = None \<and> call_result E 1 = None \<and> call_result E 2 = None)\<rparr>"

text \<open>The same environment, except that \<^verbatim>\<open>context.close()\<close> raises.\<close>

definition env_context_close_fails :: env where
  "env_context_close_fails = env_ok\<lparr>context_close := Some (PlaywrightError ''Target closed'')\<rparr>"

text \<open>The initial navigation times out; in the second environment \<^verbatim>\<open>context.close()\<close> raises too.\<close>

definition navigation_timeout :: exn where
  "navigation_timeout = PlaywrightError ''Page.goto: Timeout 10000ms exceeded.''"

definition target_closed :: exn where
  "target_closed = PlaywrightError ''Target page, context or browser has been closed''"

definition env_goto_fails :: env where
  "env_goto_fails =
     env_ok\<lparr>call_result := (\<lambda>i. if i = 5 then Some navigation_timeout else None)\<rparr>"

definition env_goto_and_close_fail :: env where
  "env_goto_and_close_fail = env_goto_fails\<lparr>context_close := Some target_closed\<rparr>"

text \<open>
  The browser does not launch: only \<^verbatim>\<open>pw\<close> is bound when the \<^verbatim>\<open>finally\<close> block runs.
\<close>

definition launch_failed :: exn where
  "launch_failed = PlaywrightError ''BrowserType.launch: Timeout 180000ms exceeded.''"

definition env_launch_fails :: env where
  "env_launch_fails =
     env_ok\<lparr>call_result := (\<lambda>i. if i = 1 then Some launch_failed else None)\<rparr>"

definition steps_succeed :: "env \<Rightarrow> action list \<Rightarrow> nat \<Rightarrow> bool" where
  \<comment> \<open>every statement before position \<open>n\<close> completes without raising\<close>
  "steps_succeed E script n = list_all (\<lambda>k. snd (exec_action E k (script ! k)) = None) [0..<n]"

definition scroll_scenarios :: "action list list" where
  \<comment> \<open>the scripts whose first interaction is \<^verbatim>\<open>page.mouse.wheel(0, window.innerHeight)\<close>\<close>
  "scroll_scenarios = [TC004_steps, TC005_steps, TC012_steps]"

fun is_domain_assertion :: "action \<Rightarrow> bool" where
  "is_domain_assertion AssertVillasListed = True"
| "is_domain_assertion AssertLocationFilter = True"
| "is_domain_assertion AssertPriceFilter = True"
| "is_domain_assertion AssertAmenitiesFilter = True"
| "is_domain_assertion (AssertFalse m) = True"
| "is_domain_assertion a = False"

definition generic_scenarios :: "action list list" where
  \<comment> \<open>the scripts that end with \<^verbatim>\<open>assert False, 'Test plan execution failed: ...'\<close>\<close>
  "generic_scenarios = [TC005_steps, TC007_steps, TC012_steps]"

fun is_sleep :: "action \<Rightarrow> bool" where
  "is_sleep (Sleep n) = True"
| "is_sleep a = False"

fun is_scroll :: "action \<Rightarrow> bool" where
  "is_scroll (MouseWheelWindow neg) = True"
| "is_scroll a = False"

text \<open>Every call returns, except that \<^verbatim>\<open>pw.stop()\<close> raises.\<close>

definition env_stop_fails :: env where
  "env_stop_fails = env_ok\<lparr>pw_stop := Some (OtherException ''Event loop is closed'')\<rparr>"

fun is_frame_discovery :: "action \<Rightarrow> bool" where
  "is_frame_discovery (ForFramesTryWaitForLoadState st ms) = True"
| "is_frame_discovery a = False"

fun is_navigation :: "action \<Rightarrow> bool" where
  "is_navigation (Goto url wait_until ms) = True"
| "is_navigation a = False"

definition timeout_or_ok :: "exn option \<Rightarrow> bool" where
  \<comment> \<open>the wait returned, or raised \<^verbatim>\<open>async_api.Error\<close> or a subclass (a timeout is one)\<close>
  "timeout_or_ok w = (case w of None \<Rightarrow> True | Some e \<Rightarrow> is_playwright_error e)"

definition hard_prologue_ok :: "env \<Rightarrow> bool" where
  \<comment> \<open>lines 11-32 complete: the session is acquired and the initial navigation commits\<close>
  "hard_prologue_ok E = list_all (\<lambda>i. call_result E i = None) [0..<6]"



text \<open>
  Every call returns, except that the page's post-commit wait raises an exception that is
  no \<^verbatim>\<open>async_api.Error\<close>.
\<close>

definition wait_cancelled :: exn where
  "wait_cancelled = OtherException ''CancelledError''"

definition env_wait_cancelled :: env where
  "env_wait_cancelled = env_ok\<lparr>call_result := (call_result env_ok)(6 := Some wait_cancelled)\<rparr>"


fun nonempty_assert_message :: "action \<Rightarrow> bool" where
  "nonempty_assert_message (AssertFalse m) = (m \<noteq> [])"
| "nonempty_assert_message a = True"

text \<open>
  The first click of TC007 (position 10) times out; in the second environment
  \<^verbatim>\<open>pw.stop()\<close> raises too.
\<close>

definition click_timeout :: exn where
  "click_timeout = PlaywrightError ''Locator.click: Timeout 5000ms exceeded.''"

definition env_click_fails :: env where
  "env_click_fails = env_ok\<lparr>call_result := (\<lambda>i. if i = 10 then Some click_timeout else None)\<rparr>"

definition env_click_and_stop_fail :: env where
  "env_click_and_stop_fail =
     env_click_fails\<lparr>pw_stop := Some (OtherException ''Event loop is closed'')\<rparr>"

section \<open>Fixture pages\<close>

definition complete_card :: "card \<Rightarrow> bool" where
  "complete_card c = (multimedia c \<and> title c \<and> price c \<noteq> None \<and> location c \<noteq> None)"

definition priced_card :: "string \<Rightarrow> card" where
  "priced_card price_text =
     \<lparr>multimedia = True, title = True, price = Some price_text,
      location = Some ''Expected Location'', amenities = [''Pool'']\<rparr>"

text \<open>Three cards; the second has no \<^verbatim>\<open>.villa-price\<close> element.\<close>

definition fixture_missing_price :: "card list" where
  "fixture_missing_price =
     [priced_card ''$150'', (priced_card ''$300'')\<lparr>price := None\<rparr>, priced_card ''$450'']"

text \<open>Three cards; the first has no \<^verbatim>\<open>.villa-title\<close> element.\<close>

definition fixture_missing_title :: "card list" where
  "fixture_missing_title =
     [(priced_card ''$150'')\<lparr>title := False\<rparr>, priced_card ''$300'', priced_card ''$450'']"

definition env_missing_price :: env where
  "env_missing_price = env_ok\<lparr>villa_cards := (\<lambda>i. fixture_missing_price)\<rparr>"

text \<open>Cards priced at 80, 150, 300 and 600.\<close>

definition priced_cards :: "card list" where
  "priced_cards = [priced_card ''$80'', priced_card ''$150'', priced_card ''$300'', priced_card ''$600'']"

definition card_price :: "card \<Rightarrow> rat option" where
  \<comment> \<open>the price a card shows, read as line 74-75 of TC004 reads it\<close>
  "card_price c =
     (case price c of None \<Rightarrow> None
      | Some price_text \<Rightarrow>
          (case extract_price price_text of Inr (Finite q) \<Rightarrow> Some q | _ \<Rightarrow> None))"

text \<open>
  Modelled from the spec: the price-range filter of the web application under test, which
  is not under \<^verbatim>\<open>src/\<close> (TC004 only reads the cards the page shows after the filter).
  A filter request \<open>[low, high]\<close> keeps the cards whose price lies in the range.
\<close>

definition price_range_filter :: "rat \<Rightarrow> rat \<Rightarrow> card list \<Rightarrow> card list" where
  "price_range_filter low high cards =
     filter (\<lambda>c. case card_price c of None \<Rightarrow> False | Some q \<Rightarrow> low \<le> q \<and> q \<le> high) cards"

text \<open>
  Modelled from the spec: \<^verbatim>\<open>assertMembership(set, requiredValue)\<close> of the assertion layer,
  which no script under \<^verbatim>\<open>src/\<close> defines; \<open>True\<close> when the assertion holds.
\<close>

definition assertMembership :: "rat list \<Rightarrow> rat \<Rightarrow> bool" where
  "assertMembership presented required_value = (required_value \<in> set presented)"

definition presented_prices :: "card list \<Rightarrow> rat list" where
  "presented_prices cards = List.map_filter card_price cards"

section \<open>The texts that float accepts, and valid numbers\<close>

text \<open>
  The grammar of the argument of \<^verbatim>\<open>float\<close>, as the Python documentation gives it:
  \<^verbatim>\<open>floatvalue ::= [sign] (floatnumber | infinity | nan)\<close>,
  \<^verbatim>\<open>floatnumber ::= number [exponent]\<close>,
  \<^verbatim>\<open>number ::= [digitpart] "." digitpart | digitpart ["."]\<close>,
  \<^verbatim>\<open>exponent ::= ("e" | "E") [sign] digitpart\<close>, between optional blanks and with
  underscores allowed between digits. It is stated on its own, to compare \<open>py_float\<close>
  with it.
\<close>

definition sign_text :: "string \<Rightarrow> bool" where
  "sign_text sg = (sg = [] \<or> sg = ''+'' \<or> sg = ''-'')"

definition exponent_text :: "string \<Rightarrow> bool" where
  "exponent_text ex =
     (ex = [] \<or>
      (\<exists>c sg ds. (c = CHR ''e'' \<or> c = CHR ''E'') \<and> sign_text sg \<and> ds \<noteq> [] \<and>
         list_all is_digit ds \<and> ex = c # sg @ ds))"

definition float_number_text :: "string \<Rightarrow> bool" where
  "float_number_text s =
     (\<exists>ip fp ex. list_all is_digit ip \<and> list_all is_digit fp \<and> exponent_text ex \<and>
        (ip \<noteq> [] \<and> s = ip @ ex \<or> (ip \<noteq> [] \<or> fp \<noteq> []) \<and> s = ip @ CHR ''.'' # fp @ ex))"

definition float_value_text :: "string \<Rightarrow> bool" where
  "float_value_text s =
     (\<exists>sg body. sign_text sg \<and> s = sg @ body \<and>
        (map lower body = ''inf'' \<or> map lower body = ''infinity'' \<or> map lower body = ''nan'' \<or>
         float_number_text body))"

definition float_text :: "string \<Rightarrow> bool" where
  "float_text s = (\<exists>t. strip_underscores (CHR 0x00) s = Some t \<and> float_value_text (strip t))"

text \<open>
  A valid number, in the words of the specification ("fails with ParseError if the
  residual text is not a valid number"): the decimal writing of a number, as a price
  shows it once the currency symbol and the thousands separators are gone. An optional
  sign, digits, and optionally a point followed by digits.
\<close>

definition decimal_digit :: "char \<Rightarrow> bool" where
  "decimal_digit c = (c \<in> set ''0123456789'')"

definition unsigned_number :: "string \<Rightarrow> bool" where
  "unsigned_number s =
     (let whole = takeWhile decimal_digit s; rest = dropWhile decimal_digit s
      in whole \<noteq> [] \<and>
         (rest = [] \<or> (hd rest = CHR ''.'' \<and> tl rest \<noteq> [] \<and> list_all decimal_digit (tl rest))))"

definition valid_number :: "string \<Rightarrow> bool" where
  "valid_number s =
     (case s of [] \<Rightarrow> False
      | c # r \<Rightarrow> if c = CHR ''+'' \<or> c = CHR ''-'' then unsigned_number r else unsigned_number s)"

section \<open>Properties\<close>

subsection \<open>The interpreter\<close>

lemma exec_steps_append:
  "exec_steps E i vs (xs @ ys) =
     (case exec_steps E i vs xs of
        (t, Some e, vs') \<Rightarrow> (t, Some e, vs')
      | (t, None, vs') \<Rightarrow>
          (let (t', r, vs'') = exec_steps E (i + length xs) vs' ys in (t @ t', r, vs'')))"
  by (induction xs arbitrary: i vs) (auto split: prod.splits option.splits)

lemma frames_loop_no_teardown: "teardown (fst (frames_loop k ws)) = []"
  by (induction ws arbitrary: k) (auto simp: teardown_def case_prod_beta split: option.splits)

lemma exec_action_no_teardown: "teardown (fst (exec_action E i a)) = []"
  using frames_loop_no_teardown [of 0 "page_frames E"]
  by (cases a) (auto simp: teardown_def split: prod.splits)

lemma exec_steps_no_teardown: "teardown (fst (exec_steps E i vs as)) = []"
proof (induction as arbitrary: i vs)
  case Nil
  show ?case by (simp add: teardown_def)
next
  case (Cons a as)
  have a: "filter is_teardown (fst (exec_action E i a)) = []"
    using exec_action_no_teardown [of E i a] by (simp add: teardown_def)
  have r: "filter is_teardown (fst (exec_steps E (Suc i) (assign a vs) as)) = []"
    using Cons [of "Suc i" "assign a vs"] by (simp add: teardown_def)
  show ?case using a r
    by (auto simp: teardown_def split: prod.splits option.splits)
qed

lemma finally_block_is_teardown: "teardown (fst (finally_block E vs)) = fst (finally_block E vs)"
  by (auto simp: teardown_def finally_block_def finally_browser_def finally_pw_def
      split: option.splits)

lemma finally_block_prefix: "prefix (fst (finally_block E vs)) (acquired_closes vs)"
  by (auto simp: finally_block_def finally_browser_def finally_pw_def acquired_closes_def
      split: option.splits)

lemma finally_block_complete:
  "closes_succeed E \<Longrightarrow> finally_block E vs = (acquired_closes vs, None)"
  by (auto simp: finally_block_def finally_browser_def finally_pw_def acquired_closes_def
      closes_succeed_def split: option.splits)

lemma run_test_trace:
  "fst (run_test script E) = body_trace script E @ fst (finally_block E (final_vars script E))"
  by (simp add: run_test_def body_trace_def final_vars_def split: prod.splits)

lemma exec_steps_vars_unchanged:
  "list_all binds_nothing as \<Longrightarrow> snd (snd (exec_steps E i vs as)) = vs"
proof (induction as arbitrary: i vs)
  case Nil
  show ?case by simp
next
  case (Cons a as)
  then have "assign a vs = vs" by (cases a) auto
  with Cons show ?case by (auto simp: case_prod_beta split: option.splits)
qed

lemma acquisition_vars:
  "snd (snd (exec_steps E 0 init_vars [Start, Launch h args, NewContext])) = prologue_vars E"
  by (simp add: init_vars_def prologue_vars_def case_prod_beta eval_nat_numeral
      split: option.splits)

lemma exec_steps_vars_append:
  assumes "list_all binds_nothing rest"
  shows "snd (snd (exec_steps E i vs (xs @ rest))) = snd (snd (exec_steps E i vs xs))"
proof -
  obtain t r vs' where p: "exec_steps E i vs xs = (t, r, vs')"
    by (cases "exec_steps E i vs xs") auto
  show ?thesis
  proof (cases r)
    case None
    then show ?thesis using p exec_steps_vars_unchanged [OF assms, of E "i + length xs" vs']
      by (simp add: exec_steps_append case_prod_beta)
  next
    case (Some e)
    then show ?thesis using p by (simp add: exec_steps_append)
  qed
qed

lemma scenario_shape:
  "script \<in> set scenarios \<Longrightarrow>
     \<exists>rest. script = [Start, Launch True launch_args, NewContext] @ rest \<and> list_all binds_nothing rest"
  by (auto simp: scenarios_def TC004_steps_def TC005_steps_def TC007_steps_def TC012_steps_def
      session_prologue_def click_def fill_def)

lemma scenario_vars:
  assumes "script \<in> set scenarios"
  shows "final_vars script E = prologue_vars E"
proof -
  obtain rest where r: "script = [Start, Launch True launch_args, NewContext] @ rest"
    "list_all binds_nothing rest"
    using scenario_shape [OF assms] by blast
  show ?thesis
    unfolding final_vars_def r(1)
    using exec_steps_vars_append [OF r(2), of E 0 init_vars "[Start, Launch True launch_args, NewContext]"]
      acquisition_vars [of E True launch_args]
    by simp
qed

lemma teardown_of_run:
  "teardown (fst (run_test script E)) = fst (finally_block E (final_vars script E))"
  using exec_steps_no_teardown [of E 0 init_vars script] finally_block_is_teardown [of E "final_vars script E"]
  by (simp add: run_test_trace body_trace_def teardown_def)

lemma distinct_acquired_closes: "distinct (acquired_closes vs)"
  by (simp add: acquired_closes_def)

lemma prefix_distinct: "prefix xs ys \<Longrightarrow> distinct ys \<Longrightarrow> distinct xs"
  by (auto simp: prefix_def)

subsection \<open>C1: teardown on every exit path\<close>

text \<open>
  Claim C1, as the code has it. In every run of the four scenarios, whatever the body did
  (returned, failed an assertion, raised anything else): no close call is made before the
  \<^verbatim>\<open>finally\<close> block; the run's trace is the body's trace followed by the close calls;
  these are an initial part of the calls owed to the variables that were bound, in the
  order context, browser, engine, each at most once; they are all of them when no close
  call raises; and the session that was fully acquired owes exactly context, browser,
  engine. A close call that raises ends the block: the later calls are not made.
\<close>

theorem teardown_once_in_order:
  assumes "script \<in> set scenarios"
  shows "teardown (body_trace script E) = [] \<and>
         fst (run_test script E) = body_trace script E @ teardown (fst (run_test script E)) \<and>
         prefix (teardown (fst (run_test script E))) (acquired_closes (prologue_vars E)) \<and>
         distinct (teardown (fst (run_test script E))) \<and>
         (closes_succeed E \<longrightarrow>
            teardown (fst (run_test script E)) = acquired_closes (prologue_vars E)) \<and>
         (call_result E 0 = None \<and> call_result E 1 = None \<and> call_result E 2 = None \<longrightarrow>
            acquired_closes (prologue_vars E) = [ContextClose, BrowserClose, PwStop])"
proof -
  have v: "final_vars script E = prologue_vars E" by (rule scenario_vars [OF assms])
  have td: "teardown (fst (run_test script E)) = fst (finally_block E (prologue_vars E))"
    using teardown_of_run [of script E] v by simp
  have 1: "teardown (body_trace script E) = []"
    by (simp add: body_trace_def exec_steps_no_teardown)
  have 2: "fst (run_test script E) = body_trace script E @ teardown (fst (run_test script E))"
    using td v by (simp add: run_test_trace)
  have 3: "prefix (teardown (fst (run_test script E))) (acquired_closes (prologue_vars E))"
    using td finally_block_prefix by simp
  have 4: "distinct (teardown (fst (run_test script E)))"
    using 3 distinct_acquired_closes prefix_distinct by blast
  have 5: "closes_succeed E \<longrightarrow>
            teardown (fst (run_test script E)) = acquired_closes (prologue_vars E)"
    using td finally_block_complete by simp
  have 6: "call_result E 0 = None \<and> call_result E 1 = None \<and> call_result E 2 = None \<longrightarrow>
            acquired_closes (prologue_vars E) = [ContextClose, BrowserClose, PwStop]"
    by (simp add: acquired_closes_def prologue_vars_def)
  show ?thesis using 1 2 3 4 5 6 by blast
qed

lemma TC007_scenario: "TC007_steps \<in> set scenarios"
  by (simp add: scenarios_def)

theorem teardown_once_in_order_witness:
  "TC007_steps \<in> set scenarios \<and> closes_succeed env_ok \<and>
   call_result env_ok 0 = None \<and> call_result env_ok 1 = None \<and> call_result env_ok 2 = None \<and>
   teardown (body_trace TC007_steps env_ok) = [] \<and>
   fst (run_test TC007_steps env_ok) =
     body_trace TC007_steps env_ok @ [ContextClose, BrowserClose, PwStop] \<and>
   teardown (fst (run_test TC007_steps env_ok)) = [ContextClose, BrowserClose, PwStop]"
proof -
  have h: "closes_succeed env_ok" "call_result env_ok 0 = None" "call_result env_ok 1 = None"
    "call_result env_ok 2 = None"
    by (simp_all add: closes_succeed_def env_ok_def)
  note T = teardown_once_in_order [OF TC007_scenario, of env_ok]
  have all: "acquired_closes (prologue_vars env_ok) = [ContextClose, BrowserClose, PwStop]"
    using T h by blast
  have "teardown (fst (run_test TC007_steps env_ok)) = acquired_closes (prologue_vars env_ok)"
    using T h by blast
  then have td: "teardown (fst (run_test TC007_steps env_ok)) = [ContextClose, BrowserClose, PwStop]"
    using all by simp
  have run: "fst (run_test TC007_steps env_ok) =
     body_trace TC007_steps env_ok @ teardown (fst (run_test TC007_steps env_ok))"
    using T by blast
  have run': "fst (run_test TC007_steps env_ok) =
     body_trace TC007_steps env_ok @ [ContextClose, BrowserClose, PwStop]"
    using run unfolding td .
  have nb: "teardown (body_trace TC007_steps env_ok) = []"
    using T by blast
  show ?thesis using h TC007_scenario td run' nb by blast
qed

text \<open>
  The claim as stated fails when \<^verbatim>\<open>context.close()\<close> raises: browser and engine stay
  open although both variables are bound.
\<close>

theorem teardown_stops_at_failing_close:
  "browser (final_vars TC007_steps env_context_close_fails) \<and>
   pw (final_vars TC007_steps env_context_close_fails) \<and>
   teardown (fst (run_test TC007_steps env_context_close_fails)) = [ContextClose] \<and>
   BrowserClose \<notin> set (fst (run_test TC007_steps env_context_close_fails)) \<and>
   PwStop \<notin> set (fst (run_test TC007_steps env_context_close_fails))"
proof -
  let ?E = env_context_close_fails
  have v: "final_vars TC007_steps ?E = prologue_vars ?E" by (rule scenario_vars [OF TC007_scenario])
  have pv: "prologue_vars ?E = \<lparr>pw = True, browser = True, browsing_context = True\<rparr>"
    by (simp add: prologue_vars_def env_context_close_fails_def env_ok_def)
  have td: "teardown (fst (run_test TC007_steps ?E)) = [ContextClose]"
    using teardown_of_run [of TC007_steps ?E] v pv
    by (simp add: finally_block_def env_context_close_fails_def env_ok_def)
  have b: "BrowserClose \<notin> set (teardown (fst (run_test TC007_steps ?E)))"
    "PwStop \<notin> set (teardown (fst (run_test TC007_steps ?E)))"
    using td by simp_all
  then have "BrowserClose \<notin> set (fst (run_test TC007_steps ?E))"
    "PwStop \<notin> set (fst (run_test TC007_steps ?E))"
    by (simp_all add: teardown_def)
  then show ?thesis using v pv td by simp
qed

subsection \<open>C2: a failure during teardown\<close>

lemma run_test_outcome:
  "snd (run_test script E) =
     (case snd (finally_block E (final_vars script E)) of
        Some e' \<Rightarrow> Raised e' (body_result script E)
      | None \<Rightarrow> (case body_result script E of Some e \<Rightarrow> Raised e None | None \<Rightarrow> Returned))"
  by (simp add: run_test_def final_vars_def body_result_def case_prod_beta split: option.splits)

lemma run_test_outcome_closed:
  "closes_succeed E \<Longrightarrow>
   snd (run_test script E) = (case body_result script E of Some e \<Rightarrow> Raised e None | None \<Rightarrow> Returned)"
  by (simp add: run_test_outcome finally_block_complete)

lemma finally_block_acquired:
  "finally_block E \<lparr>pw = True, browser = True, browsing_context = True\<rparr> =
     (case context_close E of
        Some e \<Rightarrow> ([ContextClose], Some e)
      | None \<Rightarrow>
          (case browser_close E of
             Some e \<Rightarrow> ([ContextClose, BrowserClose], Some e)
           | None \<Rightarrow> ([ContextClose, BrowserClose, PwStop], pw_stop E)))"
  by (simp add: finally_block_def finally_browser_def finally_pw_def split: option.splits)

lemma prologue_vars_acquired:
  "call_result E 0 = None \<Longrightarrow> call_result E 1 = None \<Longrightarrow> call_result E 2 = None \<Longrightarrow>
   prologue_vars E = \<lparr>pw = True, browser = True, browsing_context = True\<rparr>"
  by (simp add: prologue_vars_def)

lemma finally_block_no_raise:
  "(browsing_context V \<longrightarrow> context_close E = None) \<Longrightarrow> (browser V \<longrightarrow> browser_close E = None) \<Longrightarrow>
   (pw V \<longrightarrow> pw_stop E = None) \<Longrightarrow> finally_block E V = (acquired_closes V, None)"
  by (simp add: finally_block_def finally_browser_def finally_pw_def acquired_closes_def)

lemma finally_block_context_raises:
  "browsing_context V \<Longrightarrow> context_close E = Some e' \<Longrightarrow>
   finally_block E V = ([ContextClose], Some e')"
  by (simp add: finally_block_def)

lemma finally_block_browser_raises:
  "browser V \<Longrightarrow> (browsing_context V \<longrightarrow> context_close E = None) \<Longrightarrow> browser_close E = Some e' \<Longrightarrow>
   finally_block E V = ((if browsing_context V then [ContextClose] else []) @ [BrowserClose], Some e')"
  by (simp add: finally_block_def finally_browser_def)

lemma finally_block_stop_raises:
  "pw V \<Longrightarrow> (browsing_context V \<longrightarrow> context_close E = None) \<Longrightarrow>
   (browser V \<longrightarrow> browser_close E = None) \<Longrightarrow> pw_stop E = Some e' \<Longrightarrow>
   finally_block E V = (acquired_closes V, Some e')"
  by (simp add: finally_block_def finally_browser_def finally_pw_def acquired_closes_def)

text \<open>
  Claim C2, as the code has it. Take a run of a scenario whose body failed with \<open>e\<close>, at
  any statement, the acquisition of the session included. When none of the close calls
  that the \<^verbatim>\<open>finally\<close> block makes raises, \<open>e\<close> is the exception that leaves \<^verbatim>\<open>run_test\<close>
  and every resource that was acquired is closed, in the order context, browser, engine:
  all three when the first three statements completed. A close call that raises \<open>e'\<close> is
  not caught: \<open>e'\<close> leaves \<^verbatim>\<open>run_test\<close> in place of \<open>e\<close>, which is kept only as its
  \<^verbatim>\<open>__context__\<close>, and the close calls after the failing one are not made.
\<close>

theorem teardown_failure_propagates:
  assumes "script \<in> set scenarios" and "body_result script E = Some e"
  shows "((browsing_context (prologue_vars E) \<longrightarrow> context_close E = None) \<and>
          (browser (prologue_vars E) \<longrightarrow> browser_close E = None) \<and>
          (pw (prologue_vars E) \<longrightarrow> pw_stop E = None) \<longrightarrow>
            snd (run_test script E) = Raised e None \<and>
            teardown (fst (run_test script E)) = acquired_closes (prologue_vars E)) \<and>
         (browsing_context (prologue_vars E) \<and> context_close E = Some e' \<longrightarrow>
            snd (run_test script E) = Raised e' (Some e) \<and>
            teardown (fst (run_test script E)) = [ContextClose]) \<and>
         (browser (prologue_vars E) \<and>
          (browsing_context (prologue_vars E) \<longrightarrow> context_close E = None) \<and>
          browser_close E = Some e' \<longrightarrow>
            snd (run_test script E) = Raised e' (Some e) \<and>
            teardown (fst (run_test script E)) =
              (if browsing_context (prologue_vars E) then [ContextClose] else []) @ [BrowserClose]) \<and>
         (pw (prologue_vars E) \<and>
          (browsing_context (prologue_vars E) \<longrightarrow> context_close E = None) \<and>
          (browser (prologue_vars E) \<longrightarrow> browser_close E = None) \<and>
          pw_stop E = Some e' \<longrightarrow>
            snd (run_test script E) = Raised e' (Some e) \<and>
            teardown (fst (run_test script E)) = acquired_closes (prologue_vars E)) \<and>
         (call_result E 0 = None \<and> call_result E 1 = None \<and> call_result E 2 = None \<longrightarrow>
            acquired_closes (prologue_vars E) = [ContextClose, BrowserClose, PwStop])"
proof -
  have v: "final_vars script E = prologue_vars E"
    by (rule scenario_vars [OF assms(1)])
  have a: "(browsing_context (prologue_vars E) \<longrightarrow> context_close E = None) \<and>
          (browser (prologue_vars E) \<longrightarrow> browser_close E = None) \<and>
          (pw (prologue_vars E) \<longrightarrow> pw_stop E = None) \<longrightarrow>
            snd (run_test script E) = Raised e None \<and>
            teardown (fst (run_test script E)) = acquired_closes (prologue_vars E)"
    by (simp add: run_test_outcome teardown_of_run v finally_block_no_raise assms(2))
  have b: "browsing_context (prologue_vars E) \<and> context_close E = Some e' \<longrightarrow>
            snd (run_test script E) = Raised e' (Some e) \<and>
            teardown (fst (run_test script E)) = [ContextClose]"
    by (simp add: run_test_outcome teardown_of_run v finally_block_context_raises assms(2))
  have c: "browser (prologue_vars E) \<and>
          (browsing_context (prologue_vars E) \<longrightarrow> context_close E = None) \<and>
          browser_close E = Some e' \<longrightarrow>
            snd (run_test script E) = Raised e' (Some e) \<and>
            teardown (fst (run_test script E)) =
              (if browsing_context (prologue_vars E) then [ContextClose] else []) @ [BrowserClose]"
    by (simp add: run_test_outcome teardown_of_run v finally_block_browser_raises assms(2))
  have d: "pw (prologue_vars E) \<and>
          (browsing_context (prologue_vars E) \<longrightarrow> context_close E = None) \<and>
          (browser (prologue_vars E) \<longrightarrow> browser_close E = None) \<and>
          pw_stop E = Some e' \<longrightarrow>
            snd (run_test script E) = Raised e' (Some e) \<and>
            teardown (fst (run_test script E)) = acquired_closes (prologue_vars E)"
    by (simp add: run_test_outcome teardown_of_run v finally_block_stop_raises assms(2))
  have f: "call_result E 0 = None \<and> call_result E 1 = None \<and> call_result E 2 = None \<longrightarrow>
            acquired_closes (prologue_vars E) = [ContextClose, BrowserClose, PwStop]"
    by (simp add: prologue_vars_def acquired_closes_def)
  show ?thesis using a b c d f by blast
qed

lemma TC004_scenario: "TC004_steps \<in> set scenarios"
  by (simp add: scenarios_def)

lemma TC004_goto_fails:
  "body_result TC004_steps env_goto_fails = Some navigation_timeout"
  by (simp add: body_result_def TC004_steps_def session_prologue_def env_goto_fails_def env_ok_def
      init_vars_def eval_nat_numeral)

lemma TC004_goto_and_close_fail:
  "body_result TC004_steps env_goto_and_close_fail = Some navigation_timeout"
  by (simp add: body_result_def TC004_steps_def session_prologue_def env_goto_and_close_fail_def
      env_goto_fails_def env_ok_def init_vars_def eval_nat_numeral)

lemma TC004_launch_fails:
  "body_result TC004_steps env_launch_fails = Some launch_failed"
  by (simp add: body_result_def TC004_steps_def session_prologue_def env_launch_fails_def env_ok_def
      init_vars_def eval_nat_numeral)

theorem teardown_failure_propagates_witness:
  "TC004_steps \<in> set scenarios \<and>
   body_result TC004_steps env_goto_fails = Some navigation_timeout \<and>
   closes_succeed env_goto_fails \<and>
   snd (run_test TC004_steps env_goto_fails) = Raised navigation_timeout None \<and>
   teardown (fst (run_test TC004_steps env_goto_fails)) = [ContextClose, BrowserClose, PwStop] \<and>
   body_result TC004_steps env_goto_and_close_fail = Some navigation_timeout \<and>
   context_close env_goto_and_close_fail = Some target_closed \<and>
   snd (run_test TC004_steps env_goto_and_close_fail) = Raised target_closed (Some navigation_timeout) \<and>
   teardown (fst (run_test TC004_steps env_goto_and_close_fail)) = [ContextClose] \<and>
   body_result TC004_steps env_launch_fails = Some launch_failed \<and>
   closes_succeed env_launch_fails \<and>
   snd (run_test TC004_steps env_launch_fails) = Raised launch_failed None \<and>
   teardown (fst (run_test TC004_steps env_launch_fails)) = [PwStop]"
proof -
  have h: "prologue_vars env_goto_fails = \<lparr>pw = True, browser = True, browsing_context = True\<rparr>"
    "closes_succeed env_goto_fails"
    by (simp_all add: prologue_vars_def env_goto_fails_def env_ok_def closes_succeed_def)
  have h': "prologue_vars env_goto_and_close_fail = \<lparr>pw = True, browser = True, browsing_context = True\<rparr>"
    "context_close env_goto_and_close_fail = Some target_closed"
    by (simp_all add: prologue_vars_def env_goto_and_close_fail_def env_goto_fails_def env_ok_def)
  have h'': "prologue_vars env_launch_fails = \<lparr>pw = True, browser = False, browsing_context = False\<rparr>"
    "closes_succeed env_launch_fails"
    by (simp_all add: prologue_vars_def env_launch_fails_def env_ok_def closes_succeed_def)
  note A = teardown_failure_propagates [OF TC004_scenario TC004_goto_fails]
  note B = teardown_failure_propagates [OF TC004_scenario TC004_goto_and_close_fail,
      of target_closed]
  note C = teardown_failure_propagates [OF TC004_scenario TC004_launch_fails]
  have a: "snd (run_test TC004_steps env_goto_fails) = Raised navigation_timeout None \<and>
     teardown (fst (run_test TC004_steps env_goto_fails)) = [ContextClose, BrowserClose, PwStop]"
    using A h by (simp add: closes_succeed_def acquired_closes_def)
  have b: "snd (run_test TC004_steps env_goto_and_close_fail) = Raised target_closed (Some navigation_timeout) \<and>
     teardown (fst (run_test TC004_steps env_goto_and_close_fail)) = [ContextClose]"
    using B h' by simp
  have c: "snd (run_test TC004_steps env_launch_fails) = Raised launch_failed None \<and>
     teardown (fst (run_test TC004_steps env_launch_fails)) = [PwStop]"
    using C h'' by (simp add: closes_succeed_def acquired_closes_def)
  show ?thesis
    using a b c h(2) h'(2) h''(2) TC004_scenario TC004_goto_fails TC004_goto_and_close_fail
      TC004_launch_fails by simp
qed

text \<open>
  The claim as stated fails: the navigation of TC004 times out, then \<^verbatim>\<open>context.close()\<close>
  raises; the run's failure is the teardown error, and the browser is never closed.
\<close>

theorem teardown_error_replaces_failure:
  "body_result TC004_steps env_goto_and_close_fail = Some navigation_timeout \<and>
   snd (run_test TC004_steps env_goto_and_close_fail) = Raised target_closed (Some navigation_timeout) \<and>
   failure_reason (snd (run_test TC004_steps env_goto_and_close_fail)) \<noteq> Some (message navigation_timeout) \<and>
   browser (final_vars TC004_steps env_goto_and_close_fail) \<and>
   BrowserClose \<notin> set (fst (run_test TC004_steps env_goto_and_close_fail))"
proof -
  let ?E = env_goto_and_close_fail
  have v: "final_vars TC004_steps ?E = \<lparr>pw = True, browser = True, browsing_context = True\<rparr>"
    using scenario_vars [OF TC004_scenario, of ?E]
    by (simp add: prologue_vars_def env_goto_and_close_fail_def env_goto_fails_def env_ok_def)
  have c: "context_close ?E = Some target_closed"
    by (simp add: env_goto_and_close_fail_def)
  have out: "snd (run_test TC004_steps ?E) = Raised target_closed (Some navigation_timeout)"
    by (simp add: run_test_outcome v finally_block_acquired c TC004_goto_and_close_fail)
  have td: "teardown (fst (run_test TC004_steps ?E)) = [ContextClose]"
    by (simp add: teardown_of_run v finally_block_acquired c)
  have "BrowserClose \<notin> set (teardown (fst (run_test TC004_steps ?E)))"
    using td by simp
  then have nb: "BrowserClose \<notin> set (fst (run_test TC004_steps ?E))"
    by (simp add: teardown_def)
  have fr: "failure_reason (snd (run_test TC004_steps ?E)) \<noteq> Some (message navigation_timeout)"
    by (simp add: out target_closed_def navigation_timeout_def)
  show ?thesis using TC004_goto_and_close_fail out fr v nb by simp
qed

subsection \<open>Which steps a run starts\<close>

lemma frames_loop_no_step: "Step m b \<notin> set (fst (frames_loop k ws))"
  by (induction ws arbitrary: k) (auto simp: case_prod_beta split: option.splits)

lemma exec_action_step: "Step m b \<in> set (fst (exec_action E i a)) \<Longrightarrow> m = i \<and> b = a"
  using frames_loop_no_step [of m b 0 "page_frames E"]
  by (cases a) (auto simp: case_prod_beta)

lemma exec_action_starts: "Step i a \<in> set (fst (exec_action E i a))"
  by (cases a) (auto simp: case_prod_beta)

lemma exec_steps_Cons_fail:
  "snd (exec_action E i a) = Some e \<Longrightarrow>
   exec_steps E i vs (a # as) = (fst (exec_action E i a), Some e, vs)"
  by (cases "exec_action E i a") auto

lemma exec_steps_Cons_ok:
  "snd (exec_action E i a) = None \<Longrightarrow>
   exec_steps E i vs (a # as) =
     (fst (exec_action E i a) @ fst (exec_steps E (Suc i) (assign a vs) as),
      snd (exec_steps E (Suc i) (assign a vs) as))"
  by (cases "exec_action E i a") (auto simp: case_prod_beta)

lemma exec_steps_step:
  "Step m b \<in> set (fst (exec_steps E i vs as)) \<Longrightarrow> i \<le> m \<and> m < i + length as \<and> b = as ! (m - i)"
proof (induction as arbitrary: i vs)
  case Nil
  then show ?case by simp
next
  case (Cons a as)
  show ?case
  proof (cases "snd (exec_action E i a)")
    case (Some e)
    then show ?thesis using Cons.prems exec_action_step [of m b E i a]
      by (auto simp: exec_steps_Cons_fail simp del: exec_steps.simps(2))
  next
    case None
    from Cons.prems None
    consider "Step m b \<in> set (fst (exec_action E i a))"
      | "Step m b \<in> set (fst (exec_steps E (Suc i) (assign a vs) as))"
      by (auto simp: exec_steps_Cons_ok simp del: exec_steps.simps(2))
    then show ?thesis
    proof cases
      case 1
      then show ?thesis using exec_action_step [of m b E i a] by auto
    next
      case 2
      from Cons.IH [OF 2] show ?thesis by (auto simp: nth_Cons')
    qed
  qed
qed

lemma exec_steps_stops:
  "k < length as \<Longrightarrow> snd (exec_action E (i + k) (as ! k)) \<noteq> None \<Longrightarrow>
   fst (snd (exec_steps E i vs as)) \<noteq> None \<and>
   (\<forall>m b. Step m b \<in> set (fst (exec_steps E i vs as)) \<longrightarrow> m \<le> i + k)"
proof (induction as arbitrary: i k vs)
  case Nil
  then show ?case by simp
next
  case (Cons a as)
  show ?case
  proof (cases "snd (exec_action E i a)")
    case (Some e)
    then show ?thesis
      by (auto simp: exec_steps_Cons_fail simp del: exec_steps.simps(2) dest: exec_action_step)
  next
    case None
    then obtain k' where k: "k = Suc k'" using Cons.prems by (cases k) auto
    have "k' < length as" "snd (exec_action E (Suc i + k') (as ! k')) \<noteq> None"
      using Cons.prems k by auto
    from Cons.IH [OF this, of "assign a vs"] show ?thesis
      using None k
      by (auto simp: exec_steps_Cons_ok simp del: exec_steps.simps(2) dest: exec_action_step)
  qed
qed

lemma exec_steps_reaches:
  "n < length as \<Longrightarrow> (\<forall>k<n. snd (exec_action E (i + k) (as ! k)) = None) \<Longrightarrow>
   Step (i + n) (as ! n) \<in> set (fst (exec_steps E i vs as)) \<and>
   (snd (exec_action E (i + n) (as ! n)) \<noteq> None \<longrightarrow>
      fst (snd (exec_steps E i vs as)) = snd (exec_action E (i + n) (as ! n)))"
proof (induction as arbitrary: i n vs)
  case Nil
  then show ?case by simp
next
  case (Cons a as)
  show ?case
  proof (cases n)
    case 0
    then show ?thesis using exec_action_starts [of i a E]
      by (cases "snd (exec_action E i a)") (auto simp: exec_steps_Cons_fail exec_steps_Cons_ok simp del: exec_steps.simps(2))
  next
    case (Suc n')
    have a: "snd (exec_action E i a) = None" using Cons.prems(2) Suc by force
    have "n' < length as" using Cons.prems Suc by simp
    moreover have "\<forall>k<n'. snd (exec_action E (Suc i + k) (as ! k)) = None"
      using Cons.prems(2) Suc by force
    ultimately show ?thesis using Cons.IH [of n' "Suc i" "assign a vs"] a Suc
      by (auto simp: exec_steps_Cons_ok simp del: exec_steps.simps(2))
  qed
qed

lemma exec_steps_first_failure:
  "Step n a \<in> set (fst (exec_steps E i vs as)) \<Longrightarrow> snd (exec_action E n a) = Some e \<Longrightarrow>
   fst (snd (exec_steps E i vs as)) = Some e \<and>
   (\<forall>m b. Step m b \<in> set (fst (exec_steps E i vs as)) \<longrightarrow> m \<le> n)"
proof (induction as arbitrary: i vs)
  case Nil
  then show ?case by simp
next
  case (Cons x xs)
  show ?case
  proof (cases "snd (exec_action E i x)")
    case (Some e')
    then show ?thesis using Cons.prems
      by (auto simp: exec_steps_Cons_fail simp del: exec_steps.simps(2) dest: exec_action_step)
  next
    case None
    have "\<not> Step n a \<in> set (fst (exec_action E i x))"
      using exec_action_step [of n a E i x] None Cons.prems(2) by auto
    then have "Step n a \<in> set (fst (exec_steps E (Suc i) (assign x vs) xs))"
      using Cons.prems(1) None by (auto simp: exec_steps_Cons_ok simp del: exec_steps.simps(2))
    from Cons.IH [OF this Cons.prems(2)] exec_steps_step [OF this]
    show ?thesis using None
      by (auto simp: exec_steps_Cons_ok simp del: exec_steps.simps(2) dest: exec_action_step)
  qed
qed

lemma run_test_step:
  "Step m b \<in> set (fst (run_test script E)) \<longleftrightarrow> Step m b \<in> set (body_trace script E)"
  by (auto simp: run_test_trace finally_block_def finally_browser_def finally_pw_def
      split: option.splits if_splits)

subsection \<open>C10: the scroll step\<close>

lemma not_passed: "body_result script E \<noteq> None \<Longrightarrow> \<not> passed (snd (run_test script E))"
  by (auto simp: run_test_outcome split: option.splits)

lemma steps_succeed_iff:
  "steps_succeed E script n \<longleftrightarrow> (\<forall>k<n. snd (exec_action E k (script ! k)) = None)"
  by (auto simp: steps_succeed_def list_all_iff)

lemma scroll_scenario_shape:
  "script \<in> set scroll_scenarios \<Longrightarrow> \<exists>rest. script = session_prologue @ MouseWheelWindow False # rest"
  by (auto simp: scroll_scenarios_def TC004_steps_def TC005_steps_def TC012_steps_def)

lemma length_session_prologue: "length session_prologue = 8"
  by (simp add: session_prologue_def)

lemma prologue_nth:
  "session_prologue ! 0 = Start" "session_prologue ! 1 = Launch True launch_args"
  "session_prologue ! Suc 0 = Launch True launch_args"
  "session_prologue ! 2 = NewContext" "session_prologue ! 3 = SetDefaultTimeout 5000"
  "session_prologue ! 4 = NewPage"
  "session_prologue ! 5 = Goto ''http://localhost:5175'' (Some ''commit'') 10000"
  "session_prologue ! 6 = TryWaitForLoadState ''domcontentloaded'' 3000"
  "session_prologue ! 7 = ForFramesTryWaitForLoadState ''domcontentloaded'' 3000"
  by (simp_all add: session_prologue_def)

lemma prologue_no_assertion: "k < 8 \<Longrightarrow> \<not> is_domain_assertion (session_prologue ! k)"
proof -
  assume "k < 8"
  then have "session_prologue ! k \<in> set session_prologue"
    by (simp add: length_session_prologue)
  then show ?thesis by (auto simp: session_prologue_def)
qed

text \<open>
  Claim C10, as the code has it. In TC004, TC005 and TC012 the statement at position 8 is
  \<^verbatim>\<open>await page.mouse.wheel(0, window.innerHeight)\<close>, whose argument is the unbound name
  \<^verbatim>\<open>window\<close>. In every run of these scripts no statement after position 8 is started and no
  domain assertion is started; the body never returns, so no run passes; and every run in
  which the eight statements before the scroll step complete starts the scroll step and
  raises the \<^verbatim>\<open>NameError\<close> there.
\<close>

theorem scroll_step_raises_name_error:
  assumes "script \<in> set scroll_scenarios"
  shows "script ! 8 = MouseWheelWindow False \<and>
         (\<forall>m b. Step m b \<in> set (fst (run_test script E)) \<longrightarrow> m \<le> 8 \<and> \<not> is_domain_assertion b) \<and>
         body_result script E \<noteq> None \<and>
         \<not> passed (snd (run_test script E)) \<and>
         (steps_succeed E script 8 \<longrightarrow>
            Step 8 (MouseWheelWindow False) \<in> set (fst (run_test script E)) \<and>
            body_result script E = Some window_undefined)"
proof -
  obtain rest where s: "script = session_prologue @ MouseWheelWindow False # rest"
    using scroll_scenario_shape [OF assms] by blast
  have len: "8 < length script" by (simp add: s length_session_prologue)
  have at8: "script ! 8 = MouseWheelWindow False"
    by (simp add: s nth_append length_session_prologue)
  have fails: "snd (exec_action E (0 + 8) (script ! 8)) \<noteq> None" by (simp add: at8)
  note stop = exec_steps_stops [OF len fails, of init_vars]
  have res: "body_result script E \<noteq> None" using stop by (simp add: body_result_def)
  have pos: "\<forall>m b. Step m b \<in> set (fst (run_test script E)) \<longrightarrow> m \<le> 8 \<and> \<not> is_domain_assertion b"
  proof (intro allI impI)
    fix m b
    assume "Step m b \<in> set (fst (run_test script E))"
    then have in_body: "Step m b \<in> set (fst (exec_steps E 0 init_vars script))"
      by (simp add: run_test_step body_trace_def)
    then have m: "m \<le> 8" using stop by auto
    have b: "b = script ! m" using exec_steps_step [OF in_body] by simp
    have "\<not> is_domain_assertion (script ! m)"
    proof (cases "m < 8")
      case True
      then show ?thesis using prologue_no_assertion [of m]
        by (simp add: s nth_append length_session_prologue)
    next
      case False
      then have "m = 8" using m by simp
      then show ?thesis by (simp add: at8)
    qed
    then show "m \<le> 8 \<and> \<not> is_domain_assertion b" using m b by simp
  qed
  have reach: "steps_succeed E script 8 \<longrightarrow>
            Step 8 (MouseWheelWindow False) \<in> set (fst (run_test script E)) \<and>
            body_result script E = Some window_undefined"
  proof
    assume "steps_succeed E script 8"
    then have ok: "\<forall>k<8. snd (exec_action E (0 + k) (script ! k)) = None"
      by (simp add: steps_succeed_iff)
    from exec_steps_reaches [OF len ok, of init_vars]
    show "Step 8 (MouseWheelWindow False) \<in> set (fst (run_test script E)) \<and>
            body_result script E = Some window_undefined"
      by (simp add: at8 run_test_step body_trace_def body_result_def)
  qed
  show ?thesis using at8 pos res not_passed [OF res] reach by blast
qed

lemma steps_succeed_env_ok_prologue: "steps_succeed env_ok (session_prologue @ rest) 8"
  by (simp add: steps_succeed_def session_prologue_def env_ok_def swallow_def upt_rec)

theorem scroll_step_raises_name_error_witness:
  "TC004_steps \<in> set scroll_scenarios \<and> steps_succeed env_ok TC004_steps 8 \<and>
   TC004_steps ! 8 = MouseWheelWindow False \<and>
   Step 8 (MouseWheelWindow False) \<in> set (fst (run_test TC004_steps env_ok)) \<and>
   body_result TC004_steps env_ok = Some window_undefined \<and>
   \<not> passed (snd (run_test TC004_steps env_ok)) \<and>
   Step 9 AssertVillasListed \<notin> set (fst (run_test TC004_steps env_ok))"
proof -
  have m: "TC004_steps \<in> set scroll_scenarios" by (simp add: scroll_scenarios_def)
  have ok: "steps_succeed env_ok TC004_steps 8"
    unfolding TC004_steps_def by (rule steps_succeed_env_ok_prologue)
  note T = scroll_step_raises_name_error [OF m, of env_ok]
  have "Step 9 AssertVillasListed \<in> set (fst (run_test TC004_steps env_ok)) \<longrightarrow> (9::nat) \<le> 8"
    using T by blast
  then have n: "Step 9 AssertVillasListed \<notin> set (fst (run_test TC004_steps env_ok))" by auto
  show ?thesis using T m ok n by blast
qed

text \<open>
  The claim as stated fails: not every run raises the \<^verbatim>\<open>NameError\<close>. In the run of TC004
  below the initial navigation times out; the run fails with that timeout and the scroll
  step is never started.
\<close>

theorem run_ends_before_scroll_step:
  "TC004_steps \<in> set scroll_scenarios \<and>
   call_result env_goto_fails 5 = Some navigation_timeout \<and>
   body_result TC004_steps env_goto_fails = Some navigation_timeout \<and>
   navigation_timeout \<noteq> window_undefined \<and>
   snd (run_test TC004_steps env_goto_fails) = Raised navigation_timeout None \<and>
   Step 8 (MouseWheelWindow False) \<notin> set (fst (run_test TC004_steps env_goto_fails))"
proof -
  let ?E = env_goto_fails
  have m: "TC004_steps \<in> set scroll_scenarios" by (simp add: scroll_scenarios_def)
  have c5: "call_result ?E 5 = Some navigation_timeout" by (simp add: env_goto_fails_def)
  have ne: "navigation_timeout \<noteq> window_undefined"
    by (simp add: navigation_timeout_def window_undefined_def)
  have c: "closes_succeed ?E" by (simp add: closes_succeed_def env_goto_fails_def env_ok_def)
  have out: "snd (run_test TC004_steps ?E) = Raised navigation_timeout None"
    by (simp add: run_test_outcome_closed [OF c] TC004_goto_fails)
  have len: "5 < length TC004_steps" by (simp add: TC004_steps_def length_session_prologue)
  have nth: "TC004_steps ! k = session_prologue ! k" if "k < 8" for k
    using that by (simp add: TC004_steps_def nth_append length_session_prologue)
  have ok5: "\<forall>k<5. snd (exec_action ?E (0 + k) (TC004_steps ! k)) = None"
  proof (intro allI impI)
    fix k :: nat assume k: "k < 5"
    then have "k = 0 \<or> k = 1 \<or> k = 2 \<or> k = 3 \<or> k = 4" by arith
    then show "snd (exec_action ?E (0 + k) (TC004_steps ! k)) = None"
      using nth [of k] by (auto simp: prologue_nth env_goto_fails_def env_ok_def)
  qed
  have fail5: "snd (exec_action ?E 5 (TC004_steps ! 5)) = Some navigation_timeout"
    using nth [of 5] by (simp add: prologue_nth env_goto_fails_def)
  have s5: "Step 5 (TC004_steps ! 5) \<in> set (fst (exec_steps ?E 0 init_vars TC004_steps))"
    using exec_steps_reaches [OF len ok5, of init_vars] by simp
  have "\<forall>m b. Step m b \<in> set (fst (exec_steps ?E 0 init_vars TC004_steps)) \<longrightarrow> m \<le> 5"
    using exec_steps_first_failure [OF s5 fail5] by blast
  then have "Step 8 (MouseWheelWindow False)
     \<in> set (fst (exec_steps ?E 0 init_vars TC004_steps)) \<longrightarrow> (8::nat) \<le> 5" by blast
  then have n8: "Step 8 (MouseWheelWindow False) \<notin> set (fst (run_test TC004_steps ?E))"
    by (auto simp: run_test_step body_trace_def)
  show ?thesis using m c5 TC004_goto_fails ne out n8 by simp
qed

subsection \<open>C9: the generic failing assertion\<close>

lemma frames_loop_swallowed:
  "list_all (\<lambda>w. swallow w = None) ws \<Longrightarrow> snd (frames_loop k ws) = None"
  by (induction ws arbitrary: k) (auto simp: case_prod_beta)

lemma exec_action_calls_return:
  "call_result E i = None \<Longrightarrow> list_all (\<lambda>w. swallow w = None) (page_frames E) \<Longrightarrow>
   \<not> is_domain_assertion a \<Longrightarrow> \<not> is_scroll a \<Longrightarrow> snd (exec_action E i a) = None"
  using frames_loop_swallowed [of "page_frames E" 0]
  by (cases a) (auto simp: case_prod_beta swallow_def)

lemma steps_succeed_calls_return:
  assumes "\<forall>i<n. call_result E i = None" and "list_all (\<lambda>w. swallow w = None) (page_frames E)"
    and "list_all (\<lambda>a. \<not> is_domain_assertion a \<and> \<not> is_scroll a) (take n script)"
    and "n \<le> length script"
  shows "steps_succeed E script n"
proof -
  have "snd (exec_action E k (script ! k)) = None" if "k < n" for k
  proof -
    have "script ! k \<in> set (take n script)"
      using that assms(4) by (metis in_set_conv_nth length_take min.absorb2 nth_take)
    then have "\<not> is_domain_assertion (script ! k) \<and> \<not> is_scroll (script ! k)"
      using assms(3) by (simp add: list_all_iff)
    then show ?thesis using exec_action_calls_return [of E k "script ! k"] assms(1,2) that by simp
  qed
  then show ?thesis by (simp add: steps_succeed_iff)
qed

lemma generic_scenario_shape:
  "script \<in> set generic_scenarios \<Longrightarrow>
   \<exists>xs. script = xs @ [AssertFalse generic_failure, Sleep 5] \<and> list_all (\<lambda>a. \<not> is_sleep a) xs"
  by (auto simp: generic_scenarios_def TC005_steps_def TC007_steps_def TC012_steps_def
      session_prologue_def click_def fill_def)

lemma TC007_shape:
  "\<exists>xs. TC007_steps = xs @ [AssertFalse generic_failure, Sleep 5] \<and> length xs = 62 \<and>
        list_all (\<lambda>a. \<not> is_domain_assertion a \<and> \<not> is_scroll a) xs"
  by (simp add: TC007_steps_def session_prologue_def click_def fill_def)

lemma generic_never_sleeps:
  assumes "script \<in> set generic_scenarios"
  shows "body_result script E \<noteq> None \<and> (\<forall>m b. Step m b \<in> set (fst (run_test script E)) \<longrightarrow> \<not> is_sleep b)"
proof -
  obtain xs where s: "script = xs @ [AssertFalse generic_failure, Sleep 5]"
    and xs: "list_all (\<lambda>a. \<not> is_sleep a) xs"
    using generic_scenario_shape [OF assms] by blast
  have len: "length xs < length script" by (simp add: s)
  have at: "script ! length xs = AssertFalse generic_failure" by (simp add: s nth_append)
  have fails: "snd (exec_action E (0 + length xs) (script ! length xs)) \<noteq> None" by (simp add: at)
  note stop = exec_steps_stops [OF len fails, of init_vars]
  have "\<not> is_sleep b" if "Step m b \<in> set (fst (run_test script E))" for m b
  proof -
    have in_body: "Step m b \<in> set (fst (exec_steps E 0 init_vars script))"
      using that by (simp add: run_test_step body_trace_def)
    then have m: "m \<le> length xs" using stop by auto
    have b: "b = script ! m" using exec_steps_step [OF in_body] by simp
    show ?thesis
    proof (cases "m < length xs")
      case True
      then have "script ! m \<in> set xs" by (simp add: s nth_append)
      then show ?thesis using xs b by (simp add: list_all_iff)
    next
      case False
      then have "m = length xs" using m by simp
      then show ?thesis using b at by simp
    qed
  qed
  then show ?thesis using stop by (auto simp: body_result_def)
qed

lemma TC007_reaches_assertion:
  assumes "steps_succeed E TC007_steps 62"
  shows "Step 62 (AssertFalse generic_failure) \<in> set (fst (run_test TC007_steps E)) \<and>
         body_result TC007_steps E = Some (AssertionError generic_failure)"
proof -
  obtain xs where s: "TC007_steps = xs @ [AssertFalse generic_failure, Sleep 5]" and l: "length xs = 62"
    using TC007_shape by blast
  have len: "62 < length TC007_steps" by (simp add: s l)
  have at: "TC007_steps ! 62 = AssertFalse generic_failure" using l by (simp add: s nth_append)
  have ok: "\<forall>k<62. snd (exec_action E (0 + k) (TC007_steps ! k)) = None"
    using assms by (simp add: steps_succeed_iff)
  from exec_steps_reaches [OF len ok, of init_vars]
  show ?thesis by (simp add: at run_test_step body_trace_def body_result_def)
qed

text \<open>
  Claim C9, as the code has it. In TC005, TC007 and TC012 no run passes and the final
  \<^verbatim>\<open>asyncio.sleep(5)\<close> is never started. In every run of TC007 in which the 62
  statements before the assertion complete, the assertion is started and the body raises
  \<^verbatim>\<open>AssertionError\<close> with exactly the generic message; it is the run's failure reason when
  no close call of the \<^verbatim>\<open>finally\<close> block raises.
\<close>

theorem generic_failure_assertion_reported:
  "(script \<in> set generic_scenarios \<longrightarrow>
      \<not> passed (snd (run_test script E)) \<and>
      (\<forall>m b. Step m b \<in> set (fst (run_test script E)) \<longrightarrow> \<not> is_sleep b)) \<and>
   (steps_succeed E TC007_steps 62 \<longrightarrow>
      Step 62 (AssertFalse generic_failure) \<in> set (fst (run_test TC007_steps E)) \<and>
      body_result TC007_steps E = Some (AssertionError generic_failure) \<and>
      (closes_succeed E \<longrightarrow>
         snd (run_test TC007_steps E) = Raised (AssertionError generic_failure) None \<and>
         failure_reason (snd (run_test TC007_steps E)) = Some generic_failure))"
proof -
  have a: "script \<in> set generic_scenarios \<longrightarrow>
      \<not> passed (snd (run_test script E)) \<and>
      (\<forall>m b. Step m b \<in> set (fst (run_test script E)) \<longrightarrow> \<not> is_sleep b)"
    using generic_never_sleeps [of script E] not_passed [of script E] by blast
  have b: "steps_succeed E TC007_steps 62 \<longrightarrow>
      Step 62 (AssertFalse generic_failure) \<in> set (fst (run_test TC007_steps E)) \<and>
      body_result TC007_steps E = Some (AssertionError generic_failure) \<and>
      (closes_succeed E \<longrightarrow>
         snd (run_test TC007_steps E) = Raised (AssertionError generic_failure) None \<and>
         failure_reason (snd (run_test TC007_steps E)) = Some generic_failure)"
    using TC007_reaches_assertion [of E] by (auto simp: run_test_outcome_closed)
  show ?thesis using a b by blast
qed

lemma TC007_env_ok: "steps_succeed env_ok TC007_steps 62"
proof -
  obtain xs where s: "TC007_steps = xs @ [AssertFalse generic_failure, Sleep 5]" and l: "length xs = 62"
    and p: "list_all (\<lambda>a. \<not> is_domain_assertion a \<and> \<not> is_scroll a) xs"
    using TC007_shape by blast
  show ?thesis
    by (rule steps_succeed_calls_return) (simp_all add: env_ok_def swallow_def s l p)
qed

lemma TC007_env_stop_fails: "steps_succeed env_stop_fails TC007_steps 62"
proof -
  obtain xs where s: "TC007_steps = xs @ [AssertFalse generic_failure, Sleep 5]" and l: "length xs = 62"
    and p: "list_all (\<lambda>a. \<not> is_domain_assertion a \<and> \<not> is_scroll a) xs"
    using TC007_shape by blast
  show ?thesis
    by (rule steps_succeed_calls_return) (simp_all add: env_stop_fails_def env_ok_def swallow_def s l p)
qed

theorem generic_failure_assertion_reported_witness:
  "TC007_steps \<in> set generic_scenarios \<and> steps_succeed env_ok TC007_steps 62 \<and>
   closes_succeed env_ok \<and>
   \<not> passed (snd (run_test TC007_steps env_ok)) \<and>
   Step 62 (AssertFalse generic_failure) \<in> set (fst (run_test TC007_steps env_ok)) \<and>
   snd (run_test TC007_steps env_ok) = Raised (AssertionError generic_failure) None \<and>
   failure_reason (snd (run_test TC007_steps env_ok)) = Some generic_failure \<and>
   \<not> (Step 63 (Sleep 5) \<in> set (fst (run_test TC007_steps env_ok)))"
proof -
  have m: "TC007_steps \<in> set generic_scenarios" by (simp add: generic_scenarios_def)
  have c: "closes_succeed env_ok" by (simp add: closes_succeed_def env_ok_def)
  note T = generic_failure_assertion_reported [of TC007_steps env_ok]
  have "Step 63 (Sleep 5) \<in> set (fst (run_test TC007_steps env_ok)) \<longrightarrow> \<not> is_sleep (Sleep 5)"
    using T m by blast
  then have n: "\<not> (Step 63 (Sleep 5) \<in> set (fst (run_test TC007_steps env_ok)))" by auto
  show ?thesis using T m c TC007_env_ok n by blast
qed

lemma TC012_env_ok: "body_result TC012_steps env_ok = Some window_undefined"
proof -
  have len: "8 < length TC012_steps" by (simp add: TC012_steps_def length_session_prologue)
  have at8: "TC012_steps ! 8 = MouseWheelWindow False"
    by (simp add: TC012_steps_def nth_append length_session_prologue)
  have "steps_succeed env_ok TC012_steps 8"
    unfolding TC012_steps_def by (rule steps_succeed_env_ok_prologue)
  then have ok: "\<forall>k<8. snd (exec_action env_ok (0 + k) (TC012_steps ! k)) = None"
    by (simp add: steps_succeed_iff)
  from exec_steps_reaches [OF len ok, of init_vars]
  show ?thesis by (simp add: at8 body_result_def)
qed

text \<open>
  The claim as stated fails twice. In TC012 every browser call returns, and the reason is
  the \<^verbatim>\<open>NameError\<close> of the scroll step, which comes before the assertion. In TC007 every
  statement before the assertion completes, then \<^verbatim>\<open>pw.stop()\<close> raises, and the reason is
  that teardown error.
\<close>

theorem generic_failure_not_the_reason:
  "closes_succeed env_ok \<and>
   snd (run_test TC012_steps env_ok) = Raised window_undefined None \<and>
   failure_reason (snd (run_test TC012_steps env_ok)) \<noteq> Some generic_failure \<and>
   steps_succeed env_stop_fails TC007_steps 62 \<and>
   snd (run_test TC007_steps env_stop_fails) =
     Raised (OtherException ''Event loop is closed'') (Some (AssertionError generic_failure)) \<and>
   failure_reason (snd (run_test TC007_steps env_stop_fails)) \<noteq> Some generic_failure"
proof -
  have c: "closes_succeed env_ok" by (simp add: closes_succeed_def env_ok_def)
  have o12: "snd (run_test TC012_steps env_ok) = Raised window_undefined None"
    by (simp add: run_test_outcome_closed [OF c] TC012_env_ok)
  have r12: "failure_reason (snd (run_test TC012_steps env_ok)) \<noteq> Some generic_failure"
    by (simp add: o12 window_undefined_def generic_failure_def)
  have v: "final_vars TC007_steps env_stop_fails = \<lparr>pw = True, browser = True, browsing_context = True\<rparr>"
    using scenario_vars [OF TC007_scenario, of env_stop_fails]
    by (simp add: prologue_vars_def env_stop_fails_def env_ok_def)
  have b7: "body_result TC007_steps env_stop_fails = Some (AssertionError generic_failure)"
    using TC007_reaches_assertion [OF TC007_env_stop_fails] by simp
  have o7: "snd (run_test TC007_steps env_stop_fails) =
     Raised (OtherException ''Event loop is closed'') (Some (AssertionError generic_failure))"
  proof -
    have cc: "context_close env_stop_fails = None" "browser_close env_stop_fails = None"
      "pw_stop env_stop_fails = Some (OtherException ''Event loop is closed'')"
      by (simp_all add: env_stop_fails_def env_ok_def)
    show ?thesis by (simp add: run_test_outcome v finally_block_acquired b7 cc)
  qed
  have r7: "failure_reason (snd (run_test TC007_steps env_stop_fails)) \<noteq> Some generic_failure"
    by (simp add: o7 generic_failure_def)
  show ?thesis using c o12 r12 TC007_env_stop_fails o7 r7 by blast
qed

subsection \<open>C4: the best-effort waits\<close>

lemma timeout_or_ok_swallow: "timeout_or_ok w \<longleftrightarrow> swallow w = None"
  by (auto simp: timeout_or_ok_def swallow_def split: option.splits)




lemma scenario_frame_shape:
  "script \<in> set scenarios \<Longrightarrow>
   \<exists>rest. script = session_prologue @ rest \<and> rest \<noteq> [] \<and> list_all (\<lambda>a. \<not> is_frame_discovery a) rest"
  by (auto simp: scenarios_def TC004_steps_def TC005_steps_def TC007_steps_def TC012_steps_def
      click_def fill_def)

lemma below_8: "k < 8 \<Longrightarrow> k = 0 \<or> k = 1 \<or> k = 2 \<or> k = 3 \<or> k = 4 \<or> k = 5 \<or> k = 6 \<or> k = (7::nat)"
  by arith














subsection \<open>C5: frame discovery\<close>

lemma frames_loop_events:
  "list_all timeout_or_ok ws \<Longrightarrow> fst (frames_loop k ws) = map FrameWait [k..<k + length ws]"
  by (induction ws arbitrary: k) (auto simp: timeout_or_ok_swallow case_prod_beta upt_rec)

lemma exec_steps_reaches_events:
  "n < length as \<Longrightarrow> (\<forall>k<n. snd (exec_action E (i + k) (as ! k)) = None) \<Longrightarrow>
   set (fst (exec_action E (i + n) (as ! n))) \<subseteq> set (fst (exec_steps E i vs as))"
proof (induction as arbitrary: i n vs)
  case Nil
  then show ?case by simp
next
  case (Cons a as)
  show ?case
  proof (cases n)
    case 0
    then show ?thesis
      by (cases "snd (exec_action E i a)")
        (auto simp: exec_steps_Cons_fail exec_steps_Cons_ok simp del: exec_steps.simps(2))
  next
    case (Suc n')
    have a: "snd (exec_action E i a) = None" using Cons.prems(2) Suc by force
    have "n' < length as" using Cons.prems Suc by simp
    moreover have "\<forall>k<n'. snd (exec_action E (Suc i + k) (as ! k)) = None"
      using Cons.prems(2) Suc by force
    ultimately show ?thesis using Cons.IH [of n' "Suc i" "assign a vs"] a Suc
      by (auto simp: exec_steps_Cons_ok simp del: exec_steps.simps(2))
  qed
qed

lemma run_test_body_events: "set (body_trace script E) \<subseteq> set (fst (run_test script E))"
  by (simp add: run_test_trace)

lemma steps_succeed_mono: "steps_succeed E script n \<Longrightarrow> m \<le> n \<Longrightarrow> steps_succeed E script m"
  by (simp add: steps_succeed_iff)

text \<open>
  Claim C5, as the code has it. In every script the initial navigation is the statement
  at position 5 and the frame loop the statement at position 7; no statement after
  position 7 is a frame loop. In every run a frame loop is started at position 7 only;
  it is started whenever the session is acquired, the initial navigation commits and the
  post-commit wait raises nothing but a Playwright error, and then, when no frame's wait
  raises anything but a Playwright error, every frame is waited on.
\<close>

theorem frame_discovery_once:
  assumes "script \<in> set scenarios"
  shows "script ! 5 = Goto ''http://localhost:5175'' (Some ''commit'') 10000 \<and>
         is_frame_discovery (script ! 7) \<and>
         list_all (\<lambda>a. \<not> is_frame_discovery a) (drop 8 script) \<and>
         (\<forall>m b. Step m b \<in> set (fst (run_test script E)) \<and> is_frame_discovery b \<longrightarrow> m = 7) \<and>
         (hard_prologue_ok E \<and> timeout_or_ok (call_result E 6) \<longrightarrow>
            Step 7 (script ! 7) \<in> set (fst (run_test script E)) \<and>
            (list_all timeout_or_ok (page_frames E) \<longrightarrow>
               (\<forall>k<length (page_frames E). FrameWait k \<in> set (fst (run_test script E)))))"
proof -
  obtain rest where s: "script = session_prologue @ rest"
    and r: "list_all (\<lambda>a. \<not> is_frame_discovery a) rest"
    using scenario_frame_shape [OF assms] by blast
  have at5: "script ! 5 = Goto ''http://localhost:5175'' (Some ''commit'') 10000"
    by (simp add: s nth_append length_session_prologue prologue_nth)
  have at7: "script ! 7 = ForFramesTryWaitForLoadState ''domcontentloaded'' 3000"
    by (simp add: s nth_append length_session_prologue prologue_nth)
  have len: "7 < length script" by (simp add: s length_session_prologue)
  have static: "list_all (\<lambda>a. \<not> is_frame_discovery a) (drop 8 script)"
    using r by (simp add: s length_session_prologue)
  have once: "\<forall>m b. Step m b \<in> set (fst (run_test script E)) \<and> is_frame_discovery b \<longrightarrow> m = 7"
  proof (intro allI impI)
    fix m b
    assume a: "Step m b \<in> set (fst (run_test script E)) \<and> is_frame_discovery b"
    then have in_body: "Step m b \<in> set (fst (exec_steps E 0 init_vars script))"
      by (simp add: run_test_step body_trace_def)
    have b: "b = script ! m" and m: "m < length script"
      using exec_steps_step [OF in_body] by simp_all
    show "m = 7"
    proof (cases "m < 8")
      case True
      then have "script ! m = session_prologue ! m" by (simp add: s nth_append length_session_prologue)
      then show ?thesis using below_8 [OF True] a b by (auto simp: prologue_nth)
    next
      case False
      then have "script ! m = rest ! (m - 8)" by (simp add: s nth_append length_session_prologue)
      moreover have "m - 8 < length rest" using False m by (simp add: s length_session_prologue)
      ultimately have "\<not> is_frame_discovery (script ! m)" using r by (simp add: list_all_length)
      then show ?thesis using a b by simp
    qed
  qed
  have run: "hard_prologue_ok E \<and> timeout_or_ok (call_result E 6) \<longrightarrow>
            Step 7 (script ! 7) \<in> set (fst (run_test script E)) \<and>
            (list_all timeout_or_ok (page_frames E) \<longrightarrow>
               (\<forall>k<length (page_frames E). FrameWait k \<in> set (fst (run_test script E))))"
  proof
    assume h: "hard_prologue_ok E \<and> timeout_or_ok (call_result E 6)"
    then have c: "call_result E 0 = None" "call_result E 1 = None" "call_result E 2 = None"
      "call_result E 3 = None" "call_result E 4 = None" "call_result E 5 = None"
      by (simp_all add: hard_prologue_ok_def list_all_iff)
    have ok: "\<forall>k<7. snd (exec_action E (0 + k) (script ! k)) = None"
    proof (intro allI impI)
      fix k :: nat assume k: "k < 7"
      then have "script ! k = session_prologue ! k" by (simp add: s nth_append length_session_prologue)
      moreover have "k = 0 \<or> k = 1 \<or> k = 2 \<or> k = 3 \<or> k = 4 \<or> k = 5 \<or> k = 6" using k by arith
      ultimately show "snd (exec_action E (0 + k) (script ! k)) = None"
        using c h by (auto simp: prologue_nth timeout_or_ok_swallow)
    qed
    have s7: "Step 7 (script ! 7) \<in> set (fst (run_test script E))"
      using exec_steps_reaches [OF len ok, of init_vars] by (simp add: run_test_step body_trace_def)
    have ev: "set (fst (exec_action E 7 (script ! 7))) \<subseteq> set (fst (run_test script E))"
      using exec_steps_reaches_events [OF len ok, of init_vars] run_test_body_events [of script E]
      by (simp add: body_trace_def)
    have fr: "list_all timeout_or_ok (page_frames E) \<longrightarrow>
               (\<forall>k<length (page_frames E). FrameWait k \<in> set (fst (run_test script E)))"
    proof (intro impI allI)
      fix k assume f: "list_all timeout_or_ok (page_frames E)" and k: "k < length (page_frames E)"
      have "FrameWait k \<in> set (fst (exec_action E 7 (script ! 7)))"
        using frames_loop_events [OF f, of 0] k by (simp add: at7 case_prod_beta)
      then show "FrameWait k \<in> set (fst (run_test script E))" using ev by blast
    qed
    show "Step 7 (script ! 7) \<in> set (fst (run_test script E)) \<and>
            (list_all timeout_or_ok (page_frames E) \<longrightarrow>
               (\<forall>k<length (page_frames E). FrameWait k \<in> set (fst (run_test script E))))"
      using s7 fr by blast
  qed
  show ?thesis using at5 at7 static once run by simp
qed

theorem frame_discovery_once_witness:
  "TC012_steps \<in> set scenarios \<and> hard_prologue_ok env_ok \<and> timeout_or_ok (call_result env_ok 6) \<and>
   list_all timeout_or_ok (page_frames env_ok) \<and> length (page_frames env_ok) = 2 \<and>
   TC012_steps ! 7 = ForFramesTryWaitForLoadState ''domcontentloaded'' 3000 \<and>
   Step 7 (ForFramesTryWaitForLoadState ''domcontentloaded'' 3000)
     \<in> set (fst (run_test TC012_steps env_ok)) \<and>
   FrameWait 0 \<in> set (fst (run_test TC012_steps env_ok)) \<and>
   FrameWait 1 \<in> set (fst (run_test TC012_steps env_ok)) \<and>
   list_all (\<lambda>a. \<not> is_frame_discovery a) (drop 8 TC012_steps)"
proof -
  have m: "TC012_steps \<in> set scenarios" by (simp add: scenarios_def)
  have h: "hard_prologue_ok env_ok" "timeout_or_ok (call_result env_ok 6)"
    "list_all timeout_or_ok (page_frames env_ok)" "length (page_frames env_ok) = 2"
    by (simp_all add: hard_prologue_ok_def env_ok_def list_all_iff timeout_or_ok_def)
  have at7: "TC012_steps ! 7 = ForFramesTryWaitForLoadState ''domcontentloaded'' 3000"
    by (simp add: TC012_steps_def nth_append length_session_prologue prologue_nth)
  note T = frame_discovery_once [OF m, of env_ok]
  have s7: "Step 7 (TC012_steps ! 7) \<in> set (fst (run_test TC012_steps env_ok))"
    using T h by blast
  have "\<forall>k<length (page_frames env_ok). FrameWait k \<in> set (fst (run_test TC012_steps env_ok))"
    using T h by blast
  then have f: "FrameWait 0 \<in> set (fst (run_test TC012_steps env_ok))"
    "FrameWait 1 \<in> set (fst (run_test TC012_steps env_ok))"
    using h(4) by simp_all
  have d: "list_all (\<lambda>a. \<not> is_frame_discovery a) (drop 8 TC012_steps)" using T by blast
  show ?thesis using m h at7 s7 f d by simp
qed

text \<open>
  The claim as stated fails. In the run below the initial navigation of TC012 commits,
  the post-commit wait raises an exception that the handler does not catch, and no frame
  loop follows the navigation. And the later navigations of the scripts (TC012 lines 53
  and 57, TC005 line 56) have no frame loop anywhere after them.
\<close>

theorem navigation_without_frame_discovery:
  "call_result env_wait_cancelled 5 = None \<and>
   Step 5 (Goto ''http://localhost:5175'' (Some ''commit'') 10000)
     \<in> set (fst (run_test TC012_steps env_wait_cancelled)) \<and>
   Step 7 (ForFramesTryWaitForLoadState ''domcontentloaded'' 3000)
     \<notin> set (fst (run_test TC012_steps env_wait_cancelled)) \<and>
   TC012_steps ! 9 = Goto ''http://localhost:5175/login'' None 10000 \<and>
   TC012_steps ! 10 = Goto ''http://localhost:5175/home'' None 10000 \<and>
   \<not> list_ex is_frame_discovery (drop 10 TC012_steps) \<and>
   TC005_steps ! 10 = Goto ''http://localhost:5175/login'' None 10000 \<and>
   \<not> list_ex is_frame_discovery (drop 11 TC005_steps)"
proof -
  let ?E = env_wait_cancelled
  have c: "call_result ?E 5 = None" by (simp add: env_wait_cancelled_def env_ok_def)
  have len: "5 < length TC012_steps" "6 < length TC012_steps"
    by (simp_all add: TC012_steps_def length_session_prologue)
  have nth: "TC012_steps ! k = session_prologue ! k" if "k < 8" for k
    using that by (simp add: TC012_steps_def nth_append length_session_prologue)
  have ok6: "\<forall>k<6. snd (exec_action ?E (0 + k) (TC012_steps ! k)) = None"
  proof (intro allI impI)
    fix k :: nat assume k: "k < 6"
    then have "k = 0 \<or> k = 1 \<or> k = 2 \<or> k = 3 \<or> k = 4 \<or> k = 5" by arith
    then show "snd (exec_action ?E (0 + k) (TC012_steps ! k)) = None"
      using nth [of k] by (auto simp: prologue_nth env_wait_cancelled_def env_ok_def)
  qed
  then have ok5: "\<forall>k<5. snd (exec_action ?E (0 + k) (TC012_steps ! k)) = None" by simp
  have s5: "Step 5 (Goto ''http://localhost:5175'' (Some ''commit'') 10000)
     \<in> set (fst (run_test TC012_steps ?E))"
    using exec_steps_reaches [OF len(1) ok5, of init_vars] nth [of 5]
    by (simp add: run_test_step body_trace_def prologue_nth)
  have fail6: "snd (exec_action ?E 6 (TC012_steps ! 6)) = Some wait_cancelled"
    using nth [of 6]
    by (simp add: prologue_nth env_wait_cancelled_def env_ok_def swallow_def wait_cancelled_def)
  have s6: "Step 6 (TC012_steps ! 6) \<in> set (fst (exec_steps ?E 0 init_vars TC012_steps))"
    using exec_steps_reaches [OF len(2) ok6, of init_vars] by simp
  have "\<forall>m b. Step m b \<in> set (fst (exec_steps ?E 0 init_vars TC012_steps)) \<longrightarrow> m \<le> 6"
    using exec_steps_first_failure [OF s6 fail6] by blast
  then have "Step 7 (ForFramesTryWaitForLoadState ''domcontentloaded'' 3000)
     \<in> set (fst (exec_steps ?E 0 init_vars TC012_steps)) \<longrightarrow> (7::nat) \<le> 6" by blast
  then have n7: "Step 7 (ForFramesTryWaitForLoadState ''domcontentloaded'' 3000)
     \<notin> set (fst (run_test TC012_steps ?E))"
    by (auto simp: run_test_step body_trace_def)
  have static12: "TC012_steps ! 9 = Goto ''http://localhost:5175/login'' None 10000"
    "TC012_steps ! 10 = Goto ''http://localhost:5175/home'' None 10000"
    "\<not> list_ex is_frame_discovery (drop 10 TC012_steps)"
    by (simp_all add: TC012_steps_def session_prologue_def click_def fill_def)
  have static5: "TC005_steps ! 10 = Goto ''http://localhost:5175/login'' None 10000"
    "\<not> list_ex is_frame_discovery (drop 11 TC005_steps)"
    by (simp_all add: TC005_steps_def session_prologue_def click_def fill_def)
  show ?thesis using c s5 n7 static12 static5 by simp
qed

subsection \<open>C3: the first failing statement\<close>

lemma villas_loop_message: "villas_loop cs = Some e \<Longrightarrow> message e \<noteq> []"
  by (induction cs) (auto split: if_splits)

lemma location_loop_message: "location_loop cs = Some e \<Longrightarrow> message e \<noteq> []"
  by (induction cs) (auto simp: none_has_no_inner_text_def split: if_splits option.splits)

lemma extract_price_message: "extract_price t = Inl e \<Longrightarrow> message e \<noteq> []"
  by (auto simp: extract_price_def py_float_def float_error_def split: option.splits)

lemma price_loop_message: "price_loop fs cs = Some e \<Longrightarrow> message e \<noteq> []"
  by (induction cs)
    (auto simp: none_has_no_inner_text_def extract_price_message
      split: if_splits option.splits sum.splits)

lemma amenities_loop_message: "amenities_loop cs = Some e \<Longrightarrow> message e \<noteq> []"
  by (induction cs) (auto split: if_splits)

lemma script_raised_message:
  assumes "snd (exec_action E n a) = Some e" and "call_result E n = None"
    and "list_all timeout_or_ok (page_frames E)" and "nonempty_assert_message a"
  shows "message e \<noteq> []"
proof -
  have f: "snd (frames_loop 0 (page_frames E)) = None"
    using assms(3) by (intro frames_loop_swallowed) (simp add: list_all_iff timeout_or_ok_swallow)
  show ?thesis
    using assms(1,2,4) f
    by (cases a)
      (auto simp: case_prod_beta swallow_def window_undefined_def assert_villas_listed_def
        assert_location_filter_def assert_price_filter_def assert_amenities_filter_def
        villas_loop_message location_loop_message price_loop_message amenities_loop_message
        split: if_splits)
qed

lemma scenario_assert_messages:
  "script \<in> set scenarios \<Longrightarrow> list_all nonempty_assert_message script"
  by (auto simp: scenarios_def TC004_steps_def TC005_steps_def TC007_steps_def TC012_steps_def
      session_prologue_def click_def fill_def generic_failure_def)

text \<open>
  Claim C3, as the code has it. Let the statement at position \<open>n\<close> of a scenario be
  started and fail with \<open>e\<close>. Then no statement at a later position is started, \<open>e\<close> is
  the exception the body raises, and \<open>e\<close> with its message is the failure of the run
  when no close call of the \<^verbatim>\<open>finally\<close> block raises. When the failure is the script's
  own (the browser call of the statement returned and no frame wait raised anything but
  a Playwright error), its message is not empty.
\<close>

theorem first_failure_stops_run:
  assumes "script \<in> set scenarios" and "Step n a \<in> set (fst (run_test script E))"
    and "snd (exec_action E n a) = Some e"
  shows "(\<forall>m b. Step m b \<in> set (fst (run_test script E)) \<longrightarrow> m \<le> n) \<and>
         body_result script E = Some e \<and>
         (closes_succeed E \<longrightarrow>
            snd (run_test script E) = Raised e None \<and>
            failure_reason (snd (run_test script E)) = Some (message e)) \<and>
         (call_result E n = None \<and> list_all timeout_or_ok (page_frames E) \<longrightarrow> message e \<noteq> [])"
proof -
  have in_body: "Step n a \<in> set (fst (exec_steps E 0 init_vars script))"
    using assms(2) by (simp add: run_test_step body_trace_def)
  note F = exec_steps_first_failure [OF in_body assms(3)]
  have 1: "\<forall>m b. Step m b \<in> set (fst (run_test script E)) \<longrightarrow> m \<le> n"
    using F by (simp add: run_test_step body_trace_def)
  have 2: "body_result script E = Some e" using F by (simp add: body_result_def)
  have 3: "closes_succeed E \<longrightarrow>
            snd (run_test script E) = Raised e None \<and>
            failure_reason (snd (run_test script E)) = Some (message e)"
    using 2 by (simp add: run_test_outcome_closed)
  have a: "a = script ! n" and n: "n < length script"
    using exec_steps_step [OF in_body] by simp_all
  have "nonempty_assert_message a"
    using scenario_assert_messages [OF assms(1)] a n by (simp add: list_all_length)
  then have 4: "call_result E n = None \<and> list_all timeout_or_ok (page_frames E) \<longrightarrow> message e \<noteq> []"
    using script_raised_message [OF assms(3)] by blast
  show ?thesis using 1 2 3 4 by blast
qed

lemma TC007_first_ten:
  "list_all (\<lambda>a. \<not> is_domain_assertion a \<and> \<not> is_scroll a) (take 10 TC007_steps)"
  "10 < length TC007_steps" "TC007_steps ! 10 = Click 5000"
  by (simp_all add: TC007_steps_def session_prologue_def click_def fill_def)

lemma TC007_click_reached:
  assumes "\<forall>i<10. call_result E i = None" and "list_all (\<lambda>w. swallow w = None) (page_frames E)"
  shows "Step 10 (Click 5000) \<in> set (fst (run_test TC007_steps E)) \<and>
         (call_result E 10 \<noteq> None \<longrightarrow> body_result TC007_steps E = call_result E 10)"
proof -
  have "steps_succeed E TC007_steps 10"
    using assms TC007_first_ten by (intro steps_succeed_calls_return) simp_all
  then have ok: "\<forall>k<10. snd (exec_action E (0 + k) (TC007_steps ! k)) = None"
    by (simp add: steps_succeed_iff)
  from exec_steps_reaches [OF TC007_first_ten(2) ok, of init_vars]
  show ?thesis by (simp add: TC007_first_ten(3) run_test_step body_trace_def body_result_def)
qed

theorem first_failure_stops_run_witness:
  "TC007_steps \<in> set scenarios \<and>
   Step 10 (Click 5000) \<in> set (fst (run_test TC007_steps env_click_fails)) \<and>
   snd (exec_action env_click_fails 10 (Click 5000)) = Some click_timeout \<and>
   closes_succeed env_click_fails \<and>
   body_result TC007_steps env_click_fails = Some click_timeout \<and>
   snd (run_test TC007_steps env_click_fails) = Raised click_timeout None \<and>
   \<not> (Step 11 (Locate ''xpath=html/body/div/div/div/div/div/form/div/input'')
       \<in> set (fst (run_test TC007_steps env_click_fails))) \<and>
   Step 62 (AssertFalse generic_failure) \<in> set (fst (run_test TC007_steps env_ok)) \<and>
   snd (exec_action env_ok 62 (AssertFalse generic_failure)) = Some (AssertionError generic_failure) \<and>
   call_result env_ok 62 = None \<and> list_all timeout_or_ok (page_frames env_ok) \<and>
   message (AssertionError generic_failure) \<noteq> []"
proof -
  let ?E = env_click_fails
  have r: "Step 10 (Click 5000) \<in> set (fst (run_test TC007_steps ?E))"
    by (rule TC007_click_reached [THEN conjunct1])
      (simp_all add: env_click_fails_def env_ok_def swallow_def)
  have f: "snd (exec_action ?E 10 (Click 5000)) = Some click_timeout"
    by (simp add: env_click_fails_def env_ok_def)
  have c: "closes_succeed ?E" by (simp add: closes_succeed_def env_click_fails_def env_ok_def)
  note T = first_failure_stops_run [OF TC007_scenario r f]
  have "Step 11 (Locate ''xpath=html/body/div/div/div/div/div/form/div/input'')
       \<in> set (fst (run_test TC007_steps ?E)) \<longrightarrow> (11::nat) \<le> 10"
    using T by blast
  then have n11: "\<not> (Step 11 (Locate ''xpath=html/body/div/div/div/div/div/form/div/input'')
       \<in> set (fst (run_test TC007_steps ?E)))" by auto
  have r2: "Step 62 (AssertFalse generic_failure) \<in> set (fst (run_test TC007_steps env_ok))"
    using TC007_reaches_assertion [OF TC007_env_ok] by simp
  have f2: "snd (exec_action env_ok 62 (AssertFalse generic_failure)) = Some (AssertionError generic_failure)"
    by simp
  have h2: "call_result env_ok 62 = None" "list_all timeout_or_ok (page_frames env_ok)"
    by (simp_all add: env_ok_def timeout_or_ok_def)
  note T2 = first_failure_stops_run [OF TC007_scenario r2 f2]
  have m2: "message (AssertionError generic_failure) \<noteq> []" using T2 h2 by blast
  show ?thesis using TC007_scenario r f c T n11 r2 f2 h2 m2 by blast
qed

text \<open>
  The claim as stated fails: the first click of TC007 times out, then \<^verbatim>\<open>pw.stop()\<close>
  raises, and the failure recorded for the run is the second one.
\<close>

theorem first_failure_overwritten_by_teardown:
  "Step 10 (Click 5000) \<in> set (fst (run_test TC007_steps env_click_and_stop_fail)) \<and>
   snd (exec_action env_click_and_stop_fail 10 (Click 5000)) = Some click_timeout \<and>
   snd (run_test TC007_steps env_click_and_stop_fail) =
     Raised (OtherException ''Event loop is closed'') (Some click_timeout) \<and>
   failure_reason (snd (run_test TC007_steps env_click_and_stop_fail)) \<noteq> Some (message click_timeout)"
proof -
  let ?E = env_click_and_stop_fail
  have h: "\<forall>i<10. call_result ?E i = None" "list_all (\<lambda>w. swallow w = None) (page_frames ?E)"
    "call_result ?E 10 = Some click_timeout"
    by (simp_all add: env_click_and_stop_fail_def env_click_fails_def env_ok_def swallow_def)
  note R = TC007_click_reached [OF h(1,2)]
  have r: "Step 10 (Click 5000) \<in> set (fst (run_test TC007_steps ?E))" using R by blast
  have b: "body_result TC007_steps ?E = Some click_timeout" using R h(3) by simp
  have f: "snd (exec_action ?E 10 (Click 5000)) = Some click_timeout" using h(3) by simp
  have v: "final_vars TC007_steps ?E = \<lparr>pw = True, browser = True, browsing_context = True\<rparr>"
    using scenario_vars [OF TC007_scenario, of ?E] h(1) by (simp add: prologue_vars_def)
  have cc: "context_close ?E = None" "browser_close ?E = None"
    "pw_stop ?E = Some (OtherException ''Event loop is closed'')"
    by (simp_all add: env_click_and_stop_fail_def env_click_fails_def env_ok_def)
  have out: "snd (run_test TC007_steps ?E) =
     Raised (OtherException ''Event loop is closed'') (Some click_timeout)"
    by (simp add: run_test_outcome v finally_block_acquired b cc)
  have fr: "failure_reason (snd (run_test TC007_steps ?E)) \<noteq> Some (message click_timeout)"
    by (simp add: out click_timeout_def)
  show ?thesis using r f out fr by blast
qed

subsection \<open>C8: a card without a price\<close>

lemma bit_length_le: "n < 2 ^ k \<Longrightarrow> bit_length n \<le> k"
proof (induction k arbitrary: n)
  case 0
  then show ?case by (simp add: bit_length.simps)
next
  case (Suc k)
  show ?case
  proof (cases "n = 0")
    case True
    then show ?thesis by (simp add: bit_length.simps)
  next
    case False
    have "n div 2 < 2 ^ k" using Suc.prems by simp
    from Suc.IH [OF this] show ?thesis using False by (subst bit_length.simps) simp
  qed
qed

lemma bit_length_1: "bit_length (Suc 0) = 1"
  by (simp add: bit_length.simps)

lemma round_half_even_int: "round_half_even (of_int m) = m"
  by (simp add: round_half_even_def)

lemma round_at_int:
  assumes "e \<le> 0"
  shows "of_int (round_half_even (of_nat n / pow2 e)) * pow2 e = (of_nat n :: rat)"
proof -
  have p: "pow2 e = 1 / 2 ^ nat (- e)" using assms by (auto simp: pow2_def)
  have "(of_nat n :: rat) / pow2 e = of_int (int n * 2 ^ nat (- e))" by (simp add: p)
  then have "round_half_even (of_nat n / pow2 e) = int n * 2 ^ nat (- e)"
    by (simp only: round_half_even_int)
  then show ?thesis by (simp add: p)
qed

lemma floor_log2_nat:
  assumes "0 < n" and "n < 2 ^ 53"
  shows "floor_log2 (of_nat n) \<le> 52"
proof -
  have q: "quotient_of (of_nat n :: rat) = (int n, 1)"
    by (rule quotient_of_rat_of_nat)
  have "bit_length n \<le> 53" by (rule bit_length_le [OF assms(2)])
  then show ?thesis
    by (auto simp: floor_log2_def q bit_length_1 Let_def)
qed

lemma round_binary64_nat:
  assumes "0 < n" and "n < 2 ^ 53"
  shows "round_binary64 (of_nat n) = of_nat n"
proof -
  have "max (floor_log2 (of_nat n)) (- 1022) - 52 \<le> 0"
    using floor_log2_nat [OF assms] by simp
  then show ?thesis unfolding round_binary64_def Let_def by (rule round_at_int)
qed

lemma to_binary64_nat:
  assumes "0 < n" and "n < 2 ^ 53"
  shows "to_binary64 neg (of_nat n) = Finite (if neg then - of_nat n else of_nat n)"
proof -
  have r: "round_binary64 (of_nat n) = of_nat n" by (rule round_binary64_nat [OF assms])
  have "(of_nat n :: rat) < of_nat (2 ^ 53)" using assms(2) by (simp only: of_nat_less_iff)
  also have "\<dots> < 2 ^ 1024" by simp
  finally have lt: "\<not> (2::rat) ^ 1024 \<le> of_nat n" by simp
  have nz: "(of_nat n :: rat) \<noteq> 0" using assms(1) by simp
  show ?thesis unfolding to_binary64_def Let_def using r lt nz by simp
qed

lemma to_binary64_numeral:
  "(numeral k :: nat) < 2 ^ 53 \<Longrightarrow> to_binary64 False (numeral k) = Finite (numeral k)"
  using to_binary64_nat [of "numeral k" False] by simp

lemmas float_eval = to_binary64_numeral extract_price_def residual_def replace_char_def py_float_def is_digit_def
  strip_def is_space_def parse_float_body_def split_sign_def lower_def parse_decimal_def
  parse_exponent_def digits_val_def digit_val_def

lemma villas_loop_first_incomplete:
  assumes "list_all complete_card before" and "multimedia c"
    and "\<not> (title c \<and> price c \<noteq> None \<and> location c \<noteq> None)"
  shows "villas_loop (before @ c # after) = Some (AssertionError ''Key villa information missing'')"
  using assms by (induction before) (auto simp: complete_card_def)

lemma TC004_never_passes: "\<not> passed (snd (run_test TC004_steps E))"
proof -
  have len: "8 < length TC004_steps" by (simp add: TC004_steps_def length_session_prologue)
  have "snd (exec_action E (0 + 8) (TC004_steps ! 8)) \<noteq> None"
    by (simp add: TC004_steps_def nth_append length_session_prologue)
  from exec_steps_stops [OF len this, of init_vars]
  have "body_result TC004_steps E \<noteq> None" by (simp add: body_result_def)
  then show ?thesis by (rule not_passed)
qed

text \<open>
  Claim C8, as the code has it. When the first card that is not complete has its
  multimedia and lacks a title, a price or a location (card 2 of the fixture lacks its
  price), the assertion of lines 52-63 fails with \<^verbatim>\<open>AssertionError\<close> and the fixed message
  \<^verbatim>\<open>Key villa information missing\<close>, and the run of TC004 on that page does not pass.
\<close>

theorem missing_key_information_fails:
  assumes "list_all complete_card before" and "multimedia c"
    and "\<not> (title c \<and> price c \<noteq> None \<and> location c \<noteq> None)"
  shows "assert_villas_listed (before @ c # after) =
           Some (AssertionError ''Key villa information missing'') \<and>
         \<not> passed (snd (run_test TC004_steps (E\<lparr>villa_cards := (\<lambda>i. before @ c # after)\<rparr>)))"
  using villas_loop_first_incomplete [OF assms] TC004_never_passes
  by (simp add: assert_villas_listed_def)

theorem missing_key_information_fails_witness:
  "list_all complete_card [priced_card ''$150''] \<and>
   multimedia ((priced_card ''$300'')\<lparr>price := None\<rparr>) \<and>
   price ((priced_card ''$300'')\<lparr>price := None\<rparr>) = None \<and>
   assert_villas_listed fixture_missing_price =
     Some (AssertionError ''Key villa information missing'') \<and>
   \<not> passed (snd (run_test TC004_steps env_missing_price))"
proof -
  have h: "list_all complete_card [priced_card ''$150'']"
    "multimedia ((priced_card ''$300'')\<lparr>price := None\<rparr>)"
    "price ((priced_card ''$300'')\<lparr>price := None\<rparr>) = None"
    by (simp_all add: complete_card_def priced_card_def)
  have n: "\<not> (title ((priced_card ''$300'')\<lparr>price := None\<rparr>) \<and>
              price ((priced_card ''$300'')\<lparr>price := None\<rparr>) \<noteq> None \<and>
              location ((priced_card ''$300'')\<lparr>price := None\<rparr>) \<noteq> None)"
    using h(3) by simp
  have f: "[priced_card ''$150''] @ (priced_card ''$300'')\<lparr>price := None\<rparr> # [priced_card ''$450'']
             = fixture_missing_price"
    by (simp add: fixture_missing_price_def)
  have e: "env_ok\<lparr>villa_cards := (\<lambda>i. fixture_missing_price)\<rparr> = env_missing_price"
    by (simp add: env_missing_price_def)
  note T = missing_key_information_fails [OF h(1,2) n, of "[priced_card ''$450'']" env_ok]
  show ?thesis using T h unfolding f e by blast
qed

text \<open>
  The claim as stated fails: on the fixture the message names neither card 2 nor the
  price, and it is the message of a page whose first card lacks its title.
\<close>

theorem missing_price_message_is_generic:
  "assert_villas_listed fixture_missing_price =
     Some (AssertionError ''Key villa information missing'') \<and>
   assert_villas_listed fixture_missing_title =
     Some (AssertionError ''Key villa information missing'') \<and>
   \<not> sublist ''price'' ''Key villa information missing'' \<and>
   \<not> sublist ''2'' ''Key villa information missing''"
proof -
  have a: "assert_villas_listed fixture_missing_price =
     Some (AssertionError ''Key villa information missing'')"
    by (simp add: assert_villas_listed_def fixture_missing_price_def priced_card_def)
  have b: "assert_villas_listed fixture_missing_title =
     Some (AssertionError ''Key villa information missing'')"
    by (simp add: assert_villas_listed_def fixture_missing_title_def priced_card_def)
  have c: "\<not> sublist ''price'' ''Key villa information missing''" by code_simp
  have d: "\<not> sublist ''2'' ''Key villa information missing''" by code_simp
  show ?thesis using a b c d by blast
qed

subsection \<open>C6: the price range filter\<close>

lemma card_prices:
  "card_price (priced_card ''$80'') = Some 80" "card_price (priced_card ''$150'') = Some 150"
  "card_price (priced_card ''$300'') = Some 300" "card_price (priced_card ''$600'') = Some 600"
  by (simp_all add: card_price_def priced_card_def float_eval)

lemma extracted_prices:
  "extract_price ''$80'' = Inr (Finite 80)" "extract_price ''$150'' = Inr (Finite 150)"
  "extract_price ''$300'' = Inr (Finite 300)" "extract_price ''$600'' = Inr (Finite 600)"
  by (simp_all add: float_eval)

lemma filtered_priced_cards:
  "price_range_filter 100 500 priced_cards = [priced_card ''$150'', priced_card ''$300'']"
  by (simp add: price_range_filter_def priced_cards_def card_prices)

text \<open>
  Claim C6. Of the cards priced 80, 150, 300 and 600, a filter request \<open>[100, 500]\<close>
  presents exactly the prices 150 and 300 to the assertion step; asserting that 80 or
  that 600 is among them fails. The price assertion of TC004 (lines 71-76) passes on the
  presented cards, and fails at the card priced 80 on the unfiltered page.
\<close>

theorem price_range_filter_presents_150_300:
  "set (presented_prices (price_range_filter 100 500 priced_cards)) = {150, 300} \<and>
   \<not> assertMembership (presented_prices (price_range_filter 100 500 priced_cards)) 80 \<and>
   \<not> assertMembership (presented_prices (price_range_filter 100 500 priced_cards)) 600 \<and>
   assert_price_filter fs (price_range_filter 100 500 priced_cards) = None \<and>
   assert_price_filter fs priced_cards =
     Some (AssertionError (''Villa price '' @ fs (Finite 80) @ '' out of range''))"
proof -
  have p: "presented_prices (price_range_filter 100 500 priced_cards) = [150, 300]"
    by (simp add: filtered_priced_cards presented_prices_def List.map_filter_simps card_prices)
  have a: "assert_price_filter fs (price_range_filter 100 500 priced_cards) = None"
    by (simp add: filtered_priced_cards assert_price_filter_def priced_card_def extracted_prices)
  have b: "assert_price_filter fs priced_cards =
     Some (AssertionError (''Villa price '' @ fs (Finite 80) @ '' out of range''))"
    by (simp add: priced_cards_def assert_price_filter_def priced_card_def extracted_prices)
  show ?thesis using a b by (simp add: p assertMembership_def)
qed

theorem price_range_filter_presents_150_300_witness:
  "set (presented_prices (price_range_filter 100 500 priced_cards)) = {150, 300} \<and>
   \<not> assertMembership (presented_prices (price_range_filter 100 500 priced_cards)) 80 \<and>
   \<not> assertMembership (presented_prices (price_range_filter 100 500 priced_cards)) 600 \<and>
   assert_price_filter (\<lambda>v. ''80.0'') priced_cards =
     Some (AssertionError ''Villa price 80.0 out of range'')"
  using price_range_filter_presents_150_300 [of "\<lambda>v. ''80.0''"] by simp

subsection \<open>C7: numeric extraction of a price\<close>

lemma digit_not_punct:
  "is_digit c \<Longrightarrow> c \<noteq> CHR ''+'' \<and> c \<noteq> CHR ''-'' \<and> c \<noteq> CHR ''.'' \<and> c \<noteq> CHR ''e'' \<and> c \<noteq> CHR ''E''"
  by (auto simp: is_digit_def)

lemma takeWhile_digits:
  "list_all is_digit ip \<Longrightarrow> rest = [] \<or> \<not> is_digit (hd rest) \<Longrightarrow>
   takeWhile is_digit (ip @ rest) = ip \<and> dropWhile is_digit (ip @ rest) = rest"
  by (induction ip) (auto, (cases rest; simp)+)

lemma split_sign_decomp: "\<exists>sg. sign_text sg \<and> u = sg @ snd (split_sign u)"
  by (cases u) (auto simp: split_sign_def sign_text_def)

lemma split_sign_signed:
  "sign_text sg \<Longrightarrow> body \<noteq> [] \<Longrightarrow> hd body \<noteq> CHR ''+'' \<Longrightarrow> hd body \<noteq> CHR ''-'' \<Longrightarrow>
   snd (split_sign (sg @ body)) = body"
  by (cases body) (auto simp: split_sign_def sign_text_def)

lemma parse_exponent_sound: "parse_exponent s = Some x \<Longrightarrow> exponent_text s"
proof (cases s)
  case Nil
  then show ?thesis by (simp add: exponent_text_def)
next
  case (Cons c r)
  assume p: "parse_exponent s = Some x"
  obtain sg where sg: "sign_text sg" "r = sg @ snd (split_sign r)"
    using split_sign_decomp [of r] by blast
  from p Cons have "(c = CHR ''e'' \<or> c = CHR ''E'') \<and> snd (split_sign r) \<noteq> [] \<and>
      list_all is_digit (snd (split_sign r))"
    by (auto simp: parse_exponent_def case_prod_beta split: if_splits)
  then show ?thesis using sg Cons unfolding exponent_text_def by blast
qed

lemma parse_exponent_complete: "exponent_text s \<Longrightarrow> \<exists>x. parse_exponent s = Some x"
proof -
  assume "exponent_text s"
  then consider "s = []"
    | c sg ds where "c = CHR ''e'' \<or> c = CHR ''E''" "sign_text sg" "ds \<noteq> []" "list_all is_digit ds"
        "s = c # sg @ ds"
    unfolding exponent_text_def by blast
  then show ?thesis
  proof cases
    case 1
    then show ?thesis by (simp add: parse_exponent_def)
  next
    case 2
    have "is_digit (hd ds)" using 2(3,4) by (cases ds) auto
    then have "hd ds \<noteq> CHR ''+''" "hd ds \<noteq> CHR ''-''" using digit_not_punct by blast+
    then have "snd (split_sign (sg @ ds)) = ds" using split_sign_signed [OF 2(2,3)] by simp
    then show ?thesis using 2 by (auto simp: parse_exponent_def case_prod_beta)
  qed
qed

lemma parse_decimal_sound: "parse_decimal r = Some q \<Longrightarrow> float_number_text r"
proof -
  assume p: "parse_decimal r = Some q"
  let ?ip = "takeWhile is_digit r" and ?r1 = "dropWhile is_digit r"
  have r: "r = ?ip @ ?r1" by simp
  have ip: "list_all is_digit ?ip" by (simp add: list_all_iff) (meson set_takeWhileD)
  show ?thesis
  proof (cases ?r1)
    case Nil
    with p have "?ip \<noteq> []" by (auto simp: parse_decimal_def Let_def split: if_splits)
    moreover have "r = ?ip @ []" using r Nil by simp
    ultimately have "list_all is_digit ?ip \<and> list_all is_digit [] \<and> exponent_text [] \<and>
        (?ip \<noteq> [] \<and> r = ?ip @ [] \<or> (?ip \<noteq> [] \<or> [] \<noteq> []) \<and> r = ?ip @ CHR ''.'' # [] @ [])"
      using ip by (simp add: exponent_text_def)
    then show ?thesis unfolding float_number_text_def by blast
  next
    case (Cons c rr)
    show ?thesis
    proof (cases "c = CHR ''.''")
      case True
      let ?fp = "takeWhile is_digit rr" and ?r2 = "dropWhile is_digit rr"
      have fp: "list_all is_digit ?fp" by (simp add: list_all_iff) (meson set_takeWhileD)
      from p Cons True have ne: "?ip \<noteq> [] \<or> ?fp \<noteq> []" and "parse_exponent ?r2 \<noteq> None"
        by (auto simp: parse_decimal_def Let_def split: if_splits option.splits)
      then have ex: "exponent_text ?r2" using parse_exponent_sound by blast
      have "r = ?ip @ CHR ''.'' # ?fp @ ?r2" using r Cons True by simp
      then show ?thesis using ip fp ex ne unfolding float_number_text_def by blast
    next
      case False
      from p Cons False have ne: "?ip \<noteq> []" and "parse_exponent ?r1 \<noteq> None"
        by (auto simp: parse_decimal_def Let_def split: if_splits option.splits)
      then have ex: "exponent_text ?r1" using parse_exponent_sound by blast
      have "list_all is_digit ?ip \<and> list_all is_digit [] \<and> exponent_text ?r1 \<and>
        (?ip \<noteq> [] \<and> r = ?ip @ ?r1 \<or> (?ip \<noteq> [] \<or> [] \<noteq> []) \<and> r = ?ip @ CHR ''.'' # [] @ ?r1)"
        using ip ex ne by simp
      then show ?thesis unfolding float_number_text_def by blast
    qed
  qed
qed

lemma exponent_text_head: "exponent_text ex \<Longrightarrow> ex = [] \<or> (\<not> is_digit (hd ex) \<and> hd ex \<noteq> CHR ''.'')"
  by (auto simp: exponent_text_def is_digit_def)

lemma parse_decimal_complete: "float_number_text r \<Longrightarrow> \<exists>q. parse_decimal r = Some q"
proof -
  assume "float_number_text r"
  then obtain ip fp ex where d: "list_all is_digit ip" "list_all is_digit fp" "exponent_text ex"
    and c: "ip \<noteq> [] \<and> r = ip @ ex \<or> (ip \<noteq> [] \<or> fp \<noteq> []) \<and> r = ip @ CHR ''.'' # fp @ ex"
    unfolding float_number_text_def by blast
  obtain x where x: "parse_exponent ex = Some x" using parse_exponent_complete [OF d(3)] by blast
  have exh: "ex = [] \<or> (\<not> is_digit (hd ex) \<and> hd ex \<noteq> CHR ''.'')" by (rule exponent_text_head [OF d(3)])
  from c show ?thesis
  proof
    assume a: "ip \<noteq> [] \<and> r = ip @ ex"
    have t: "takeWhile is_digit r = ip" "dropWhile is_digit r = ex"
      using takeWhile_digits [OF d(1), of ex] exh a by auto
    have ne: "ip \<noteq> []" using a by simp
    show ?thesis
    proof (cases ex)
      case Nil
      show ?thesis unfolding parse_decimal_def t Nil Let_def
        using ne by (simp add: parse_exponent_def)
    next
      case (Cons c rr)
      then have "c \<noteq> CHR ''.''" using exh by auto
      then show ?thesis unfolding parse_decimal_def t Let_def
        using ne x Cons by simp
    qed
  next
    assume a: "(ip \<noteq> [] \<or> fp \<noteq> []) \<and> r = ip @ CHR ''.'' # fp @ ex"
    have "\<not> is_digit (CHR ''.'')" by (simp add: is_digit_def)
    then have t: "takeWhile is_digit r = ip" "dropWhile is_digit r = CHR ''.'' # fp @ ex"
      using takeWhile_digits [OF d(1), of "CHR ''.'' # fp @ ex"] a by auto
    have t2: "takeWhile is_digit (fp @ ex) = fp" "dropWhile is_digit (fp @ ex) = ex"
      using takeWhile_digits [OF d(2), of ex] exh by auto
    have ne: "ip \<noteq> [] \<or> fp \<noteq> []" using a by simp
    show ?thesis unfolding parse_decimal_def t Let_def
      using ne x t2 by auto
  qed
qed

lemma lower_sign: "lower (CHR ''+'') = CHR ''+''" "lower (CHR ''-'') = CHR ''-''"
  by (simp_all add: lower_def)

lemma special_head:
  assumes "map lower body = ''inf'' \<or> map lower body = ''infinity'' \<or> map lower body = ''nan''"
  shows "body \<noteq> [] \<and> hd body \<noteq> CHR ''+'' \<and> hd body \<noteq> CHR ''-''"
proof (cases body)
  case Nil
  then show ?thesis using assms by simp
next
  case (Cons c cs)
  then have "lower c = CHR ''i'' \<or> lower c = CHR ''n''" using assms by auto
  then have "c \<noteq> CHR ''+'' \<and> c \<noteq> CHR ''-''" using lower_sign by auto
  then show ?thesis using Cons by simp
qed

lemma float_number_head:
  assumes "float_number_text body"
  shows "body \<noteq> [] \<and> hd body \<noteq> CHR ''+'' \<and> hd body \<noteq> CHR ''-''"
proof -
  obtain ip fp ex where d: "list_all is_digit ip"
    and c: "ip \<noteq> [] \<and> body = ip @ ex \<or> (ip \<noteq> [] \<or> fp \<noteq> []) \<and> body = ip @ CHR ''.'' # fp @ ex"
    using assms unfolding float_number_text_def by blast
  show ?thesis
  proof (cases ip)
    case Nil
    then have "body = CHR ''.'' # fp @ ex" using c by auto
    then show ?thesis by simp
  next
    case (Cons a as)
    then have "is_digit a" and "hd body = a" and "body \<noteq> []" using d c by auto
    then show ?thesis using digit_not_punct [of a] by simp
  qed
qed

lemma parse_float_body_sound: "parse_float_body u = Some v \<Longrightarrow> float_value_text u"
proof -
  assume p: "parse_float_body u = Some v"
  obtain sg where sg: "sign_text sg" "u = sg @ snd (split_sign u)"
    using split_sign_decomp [of u] by blast
  let ?r = "snd (split_sign u)"
  have "map lower ?r = ''inf'' \<or> map lower ?r = ''infinity'' \<or> map lower ?r = ''nan'' \<or>
        float_number_text ?r"
    using p parse_decimal_sound [of ?r]
    by (auto simp: parse_float_body_def case_prod_beta Let_def split: if_splits)
  then show ?thesis using sg unfolding float_value_text_def
    by (intro exI [of _ sg] exI [of _ "snd (split_sign u)"]) simp
qed

lemma signed_body_head:
  assumes "map lower body = ''inf'' \<or> map lower body = ''infinity'' \<or> map lower body = ''nan'' \<or>
         float_number_text body"
  shows "body \<noteq> [] \<and> hd body \<noteq> CHR ''+'' \<and> hd body \<noteq> CHR ''-''"
proof (cases "float_number_text body")
  case True
  then show ?thesis by (rule float_number_head)
next
  case False
  then have "map lower body = ''inf'' \<or> map lower body = ''infinity'' \<or> map lower body = ''nan''"
    using assms by blast
  then show ?thesis by (rule special_head)
qed

lemma signed_body_parses:
  assumes "map lower body = ''inf'' \<or> map lower body = ''infinity'' \<or> map lower body = ''nan'' \<or>
         float_number_text body"
  shows "(map lower body = ''inf'' \<or> map lower body = ''infinity'') \<or> map lower body = ''nan'' \<or>
           parse_decimal body \<noteq> None"
proof (cases "float_number_text body")
  case True
  then show ?thesis using parse_decimal_complete [of body] by auto
next
  case False
  then show ?thesis using assms by blast
qed

lemma some_of_three:
  "(A \<or> B) \<or> C \<or> z \<noteq> None \<Longrightarrow>
   \<exists>v. (if A \<or> B then Some x else if C then Some y else map_option f z) = Some v"
  by auto

lemma parse_float_body_complete: "float_value_text u \<Longrightarrow> \<exists>v. parse_float_body u = Some v"
proof -
  assume fv: "float_value_text u"
  have "\<exists>sg body. sign_text sg \<and> u = sg @ body \<and>
        (map lower body = ''inf'' \<or> map lower body = ''infinity'' \<or> map lower body = ''nan'' \<or>
         float_number_text body)"
    using fv unfolding float_value_text_def .
  then obtain sg where "\<exists>body. sign_text sg \<and> u = sg @ body \<and>
        (map lower body = ''inf'' \<or> map lower body = ''infinity'' \<or> map lower body = ''nan'' \<or>
         float_number_text body)" ..
  then obtain body where all: "sign_text sg \<and> u = sg @ body \<and>
        (map lower body = ''inf'' \<or> map lower body = ''infinity'' \<or> map lower body = ''nan'' \<or>
         float_number_text body)" ..
  have sg: "sign_text sg" and u: "u = sg @ body"
    and b: "map lower body = ''inf'' \<or> map lower body = ''infinity'' \<or> map lower body = ''nan'' \<or>
         float_number_text body"
    using all by blast+
  have h: "body \<noteq> [] \<and> hd body \<noteq> CHR ''+'' \<and> hd body \<noteq> CHR ''-''"
    by (rule signed_body_head [OF b])
  have r: "snd (split_sign u) = body"
    unfolding u using split_sign_signed [OF sg, of body] h by blast
  show ?thesis
    unfolding parse_float_body_def case_prod_beta Let_def r
    by (rule some_of_three) (rule signed_body_parses [OF b])
qed

lemma py_float_accepts: "float_text s \<Longrightarrow> \<exists>v. py_float s = Inr v"
proof -
  assume "float_text s"
  then obtain t where t: "strip_underscores (CHR 0x00) s = Some t" "float_value_text (strip t)"
    unfolding float_text_def by blast
  obtain v where "parse_float_body (strip t) = Some v"
    using parse_float_body_complete [OF t(2)] by blast
  then show ?thesis using t(1) by (simp add: py_float_def)
qed

lemma py_float_rejects: "\<not> float_text s \<Longrightarrow> py_float s = Inl (float_error s)"
proof -
  assume n: "\<not> float_text s"
  show ?thesis
  proof (cases "strip_underscores (CHR 0x00) s")
    case None
    then show ?thesis by (simp add: py_float_def)
  next
    case (Some t)
    then have "\<not> float_value_text (strip t)" using n unfolding float_text_def by simp
    then have "parse_float_body (strip t) = None"
      using parse_float_body_sound [of "strip t"] by (cases "parse_float_body (strip t)") auto
    then show ?thesis using Some by (simp add: py_float_def)
  qed
qed

lemma decimal_digit_is_digit: "decimal_digit = is_digit"
  by (rule ext) (simp add: decimal_digit_def is_digit_def)

lemma plain_char:
  "is_digit c \<or> c = CHR ''.'' \<or> c = CHR ''+'' \<or> c = CHR ''-'' \<Longrightarrow> c \<noteq> CHR ''_'' \<and> \<not> is_space c"
  by (auto simp: is_digit_def is_space_def)

lemma strip_underscores_none:
  "CHR ''_'' \<notin> set s \<Longrightarrow> prev \<noteq> CHR ''_'' \<Longrightarrow> strip_underscores prev s = Some s"
  by (induction s arbitrary: prev) auto

lemma strip_id: "s \<noteq> [] \<Longrightarrow> \<not> is_space (hd s) \<Longrightarrow> \<not> is_space (last s) \<Longrightarrow> strip s = s"
proof -
  assume a: "s \<noteq> []" "\<not> is_space (hd s)" "\<not> is_space (last s)"
  have 1: "dropWhile is_space s = s" using a(1,2) by (cases s) auto
  have "rev s \<noteq> []" "\<not> is_space (hd (rev s))" using a(1,3) by (simp_all add: hd_rev)
  then have 2: "dropWhile is_space (rev s) = rev s" by (cases "rev s") auto
  show ?thesis by (simp add: strip_def 1 2)
qed

lemma unsigned_number_text:
  assumes "unsigned_number s"
  shows "float_number_text s \<and> s \<noteq> [] \<and> (\<forall>c\<in>set s. is_digit c \<or> c = CHR ''.'')"
proof -
  let ?w = "takeWhile is_digit s" and ?r = "dropWhile is_digit s"
  have s: "s = ?w @ ?r" by simp
  have w: "list_all is_digit ?w" by (simp add: list_all_iff) (meson set_takeWhileD)
  have u: "?w \<noteq> [] \<and> (?r = [] \<or> (hd ?r = CHR ''.'' \<and> tl ?r \<noteq> [] \<and> list_all is_digit (tl ?r)))"
    using assms by (simp add: unsigned_number_def decimal_digit_is_digit Let_def)
  have ne: "s \<noteq> []" using u by auto
  show ?thesis
  proof (cases "?r = []")
    case True
    then have ws: "takeWhile is_digit s = s" by (metis append_Nil2 takeWhile_dropWhile_id)
    have d: "list_all is_digit s" using w unfolding ws .
    have all: "\<forall>c\<in>set s. is_digit c \<or> c = CHR ''.''"
      using d by (simp add: list_all_iff)
    have "list_all is_digit s \<and> list_all is_digit [] \<and> exponent_text [] \<and>
        (s \<noteq> [] \<and> s = s @ [] \<or> (s \<noteq> [] \<or> [] \<noteq> []) \<and> s = s @ CHR ''.'' # [] @ [])"
      using d ne by (simp add: exponent_text_def)
    then have "float_number_text s" unfolding float_number_text_def by blast
    then show ?thesis using ne all by blast
  next
    case False
    then have r: "?r = CHR ''.'' # tl ?r" and f: "tl ?r \<noteq> []" "list_all is_digit (tl ?r)"
      using u by (cases ?r; auto)+
    have e: "s = ?w @ CHR ''.'' # tl ?r @ []" using s r by (metis append_Nil2)
    have "set s = set ?w \<union> {CHR ''.''} \<union> set (tl ?r)"
      by (subst e) auto
    then have all: "\<forall>c\<in>set s. is_digit c \<or> c = CHR ''.''"
      using w f(2) by (auto simp: list_all_iff)
    have "list_all is_digit ?w \<and> list_all is_digit (tl ?r) \<and> exponent_text [] \<and>
        (?w \<noteq> [] \<and> s = ?w @ [] \<or> (?w \<noteq> [] \<or> tl ?r \<noteq> []) \<and> s = ?w @ CHR ''.'' # tl ?r @ [])"
      using w f u e by (simp add: exponent_text_def)
    then have "float_number_text s" unfolding float_number_text_def by blast
    then show ?thesis using ne all by blast
  qed
qed

lemma valid_number_split:
  assumes "valid_number s"
  shows "\<exists>sg body. sign_text sg \<and> s = sg @ body \<and> unsigned_number body"
proof (cases s)
  case Nil
  then show ?thesis using assms by (simp add: valid_number_def)
next
  case (Cons c r)
  show ?thesis
  proof (cases "c = CHR ''+'' \<or> c = CHR ''-''")
    case True
    then have "unsigned_number r" using assms Cons by (simp add: valid_number_def)
    moreover have "sign_text [c]" using True by (auto simp: sign_text_def)
    moreover have "s = [c] @ r" using Cons by simp
    ultimately show ?thesis by blast
  next
    case False
    then have "unsigned_number s" using assms Cons by (simp add: valid_number_def)
    moreover have "sign_text []" by (simp add: sign_text_def)
    moreover have "s = [] @ s" by simp
    ultimately show ?thesis by blast
  qed
qed

lemma valid_number_float_text: "valid_number s \<Longrightarrow> float_text s"
proof -
  assume v: "valid_number s"
  obtain sg body where sg: "sign_text sg" and s: "s = sg @ body" and u: "unsigned_number body"
    using valid_number_split [OF v] by blast
  note b = unsigned_number_text [OF u]
  have chars: "\<forall>c\<in>set s. is_digit c \<or> c = CHR ''.'' \<or> c = CHR ''+'' \<or> c = CHR ''-''"
    using sg b s by (auto simp: sign_text_def)
  have ne: "s \<noteq> []" using b s by simp
  have "hd s \<in> set s" "last s \<in> set s" using ne by simp_all
  then have sp: "\<not> is_space (hd s)" "\<not> is_space (last s)" using chars plain_char by blast+
  have "CHR ''_'' \<notin> set s" using chars plain_char by blast
  then have 1: "strip_underscores (CHR 0x00) s = Some s" by (intro strip_underscores_none) simp_all
  have 2: "strip s = s" by (rule strip_id [OF ne sp])
  have "sign_text sg \<and> s = sg @ body \<and>
        (map lower body = ''inf'' \<or> map lower body = ''infinity'' \<or> map lower body = ''nan'' \<or>
         float_number_text body)"
    using sg s b by simp
  then have "float_value_text s" unfolding float_value_text_def by (intro exI)
  then show ?thesis unfolding float_text_def using 1 2 by simp
qed

text \<open>
  Claim C7, as the code has it. Line 75 of TC004 turns the text \<^verbatim>\<open>$1,234.00\<close> into
  \<^verbatim>\<open>1234.00\<close> by removing the dollar signs and the commas, and parses it to exactly
  1234. For every price text: when what remains is a valid number the extraction returns
  a value; it returns a value exactly when what remains is a text that \<^verbatim>\<open>float\<close>
  accepts, and otherwise raises \<^verbatim>\<open>ValueError\<close> (the code's parse error) on what remains.
\<close>

theorem price_text_extraction:
  "residual ''$1,234.00'' = ''1234.00'' \<and>
   extract_price ''$1,234.00'' = Inr (Finite 1234) \<and>
   (valid_number (residual price_text) \<longrightarrow> (\<exists>v. extract_price price_text = Inr v)) \<and>
   (float_text (residual price_text) \<longrightarrow> (\<exists>v. extract_price price_text = Inr v)) \<and>
   (\<not> float_text (residual price_text) \<longrightarrow>
      extract_price price_text = Inl (float_error (residual price_text)))"
proof -
  have a: "residual ''$1,234.00'' = ''1234.00''" by (simp add: residual_def replace_char_def)
  have b: "extract_price ''$1,234.00'' = Inr (Finite 1234)" by (simp add: float_eval)
  show ?thesis
    using a b py_float_accepts py_float_rejects valid_number_float_text
    by (simp add: extract_price_def)
qed

theorem price_text_extraction_witness:
  "valid_number (residual ''$1,234.00'') \<and>
   float_text (residual ''$1,234.00'') \<and>
   extract_price ''$1,234.00'' = Inr (Finite 1234) \<and>
   \<not> float_text (residual ''$N/A'') \<and>
   residual ''$N/A'' = ''N/A'' \<and>
   extract_price ''$N/A'' = Inl (float_error ''N/A'') \<and>
   message (float_error ''N/A'') =
     ''could not convert string to float: '' @ CHR 0x27 # ''N/A'' @ [CHR 0x27]"
proof -
  note T = price_text_extraction [of "''$1,234.00''"]
  note U = price_text_extraction [of "''$N/A''"]
  have e: "extract_price ''$1,234.00'' = Inr (Finite 1234)" using T by blast
  have "\<not> float_text (residual ''$1,234.00'') \<longrightarrow> False" using T e by auto
  then have v: "float_text (residual ''$1,234.00'')" by blast
  have vn: "valid_number (residual ''$1,234.00'')"
    by (simp add: residual_def replace_char_def valid_number_def unsigned_number_def
        decimal_digit_def)
  have r: "residual ''$N/A'' = ''N/A''" by (simp add: residual_def replace_char_def)
  have f: "extract_price ''$N/A'' = Inl (float_error ''N/A'')"
    by (simp add: float_eval)
  have "float_text (residual ''$N/A'') \<longrightarrow> False" using U f by auto
  then have n: "\<not> float_text (residual ''$N/A'')" by blast
  have m: "message (float_error ''N/A'') =
     ''could not convert string to float: '' @ CHR 0x27 # ''N/A'' @ [CHR 0x27]"
    by (simp add: float_error_def py_repr_def repr_char_def printable_def Let_def)
  show ?thesis using vn v e n r f m by blast
qed

text \<open>
  The claim as stated fails: what remains of \<^verbatim>\<open>$NaN\<close> and of \<^verbatim>\<open>$Infinity\<close> is not a
  valid number, and the extraction returns a value for both.
\<close>

theorem not_a_number_is_returned:
  "residual ''$NaN'' = ''NaN'' \<and> \<not> valid_number ''NaN'' \<and>
   extract_price ''$NaN'' = Inr NaN \<and>
   residual ''$Infinity'' = ''Infinity'' \<and> \<not> valid_number ''Infinity'' \<and>
   extract_price ''$Infinity'' = Inr PosInf"
proof -
  have a: "residual ''$NaN'' = ''NaN''" "residual ''$Infinity'' = ''Infinity''"
    by (simp_all add: residual_def replace_char_def)
  have b: "\<not> valid_number ''NaN''" "\<not> valid_number ''Infinity''"
    by (simp_all add: valid_number_def unsigned_number_def decimal_digit_def)
  have c: "extract_price ''$NaN'' = Inr NaN" by (simp add: float_eval)
  have d: "extract_price ''$Infinity'' = Inr PosInf" by (simp add: float_eval)
  show ?thesis using a b c d by blast
qed

end
